theory Spec2Isabelle
  imports Main "HOL-Library.AList" "HOL-Library.Sublist"
begin

section \<open>Data model\<close>

text \<open>
  A Score Record is a Python \<open>dict\<close> from category name to integer score. The model keeps
  it as an association list in insertion order (the order \<open>.items()\<close> iterates in);
  \<open>d.get(k)\<close> is \<open>map_of d k\<close>. A \<open>dict\<close> never holds a key twice, which the
  list type does not enforce: theorems that read \<open>current[c]\<close> assume
  \<open>distinct (map fst current)\<close>.
\<close>

type_synonym score_record = "(string \<times> int) list"

text \<open>The dict appended to \<open>changes\<close> by \<open>compare_scores\<close>.\<close>

record change =
  c_category :: string
  c_previous :: int
  c_current :: int
  c_diff :: int
  c_direction :: string

section \<open>Change detection\<close>

text \<open>
  One iteration of the loop of \<open>compare_scores\<close>: \<open>changes\<close> is the accumulator the
  source appends to.
\<close>

definition compare_step :: "score_record \<Rightarrow> int \<Rightarrow> change list \<Rightarrow> string \<times> int \<Rightarrow> change list" where
  "compare_step previous threshold changes item =
     (case item of (category, current_score) \<Rightarrow>
        (case map_of previous category of
           None \<Rightarrow> changes
         | Some prev_score \<Rightarrow>
             (let diff = current_score - prev_score in
              if \<bar>diff\<bar> \<ge> threshold
              then changes @ [\<lparr>c_category = category, c_previous = prev_score,
                               c_current = current_score, c_diff = diff,
                               c_direction = (if diff > 0 then ''improved'' else ''declined'')\<rparr>]
              else changes)))"

definition compare_scores :: "score_record \<Rightarrow> score_record \<Rightarrow> int \<Rightarrow> change list" where
  "compare_scores current previous threshold = foldl (compare_step previous threshold) [] current"

text \<open>The record \<open>compare_scores\<close> builds for a category whose difference passes the test.\<close>

definition change_of :: "string \<Rightarrow> int \<Rightarrow> int \<Rightarrow> change" where
  "change_of c s p =
     \<lparr>c_category = c, c_previous = p, c_current = s, c_diff = s - p,
      c_direction = (if s - p > 0 then ''improved'' else ''declined'')\<rparr>"

section \<open>Strings\<close>

text \<open>
  Strings are lists of bytes: a Python string stands for its UTF-8 encoding. Lengths and
  whitespace are those of the characters encoded (\<open>py_len\<close>, \<open>strip\<close>); the case rules of
  \<open>title\<close> are those of the ASCII letters, so a category name with other letters is
  outside the model. The non-ASCII symbols of the source are named constants holding the
  bytes the source file has at that place.
\<close>

definition sym_report :: string where
  "sym_report = [CHR 0xEF, CHR 0xA3, CHR 0xBF, CHR 0xC3, CHR 0xBC, CHR 0xC3, CHR 0xAE, CHR 0xC3, CHR 0xA7]"

definition sym_warning :: string where
  "sym_warning = [CHR 0xE2, CHR 0x80, CHR 0x9A, CHR 0xC3, CHR 0xB6, CHR 0xE2, CHR 0x80, CHR 0xA0,
                  CHR 0xC3, CHR 0x94, CHR 0xE2, CHR 0x88, CHR 0x8F, CHR 0xC3, CHR 0xA8]"

definition sym_up :: string where
  "sym_up = [CHR 0xE2, CHR 0x80, CHR 0x9A, CHR 0xC3, CHR 0x9C, CHR 0xC3, CHR 0xAB]"

definition sym_down :: string where
  "sym_down = [CHR 0xE2, CHR 0x80, CHR 0x9A, CHR 0xC3, CHR 0x9C, CHR 0xC3, CHR 0xAC]"

definition sym_dash :: string where
  "sym_dash = [CHR 0xE2, CHR 0x80, CHR 0x9A, CHR 0xC3, CHR 0x84, CHR 0xC3, CHR 0xAE]"

definition sym_alert :: string where
  "sym_alert = [CHR 0xEF, CHR 0xA3, CHR 0xBF, CHR 0xC3, CHR 0xBC, CHR 0xC3, CHR 0xB6, CHR 0xC2, CHR 0xAE]"

definition sym_check :: string where
  "sym_check = [CHR 0xE2, CHR 0x80, CHR 0x9A, CHR 0xC3, CHR 0xBA, CHR 0xC3, CHR 0x96]"

text \<open>\<open>str(n)\<close> for an integer: decimal digits, a minus sign for a negative number.\<close>

fun str_nat :: "nat \<Rightarrow> string" where
  "str_nat n = (if n < 10 then [''0123456789'' ! n]
                else str_nat (n div 10) @ [''0123456789'' ! (n mod 10)])"

declare str_nat.simps [simp del]

definition str_int :: "int \<Rightarrow> string" where
  "str_int i = (if i < 0 then CHR ''-'' # str_nat (nat (- i)) else str_nat (nat i))"

text \<open>
  \<open>len(s)\<close> counts characters, not bytes: the bytes of UTF-8 text that are not
  continuation bytes (\<open>0x80\<close> to \<open>0xBF\<close>).
\<close>

definition py_len :: "string \<Rightarrow> nat" where
  "py_len s = length (filter (\<lambda>c. \<not> (128 \<le> (of_char c :: nat) \<and> (of_char c :: nat) < 192)) s)"

text \<open>
  The format specifications \<open>{s:20}\<close> of a string (left-aligned in at least 20 columns) and
  \<open>{n:3}\<close> of an integer (right-aligned in at least 3); the width counts characters.
\<close>

definition ljust :: "nat \<Rightarrow> string \<Rightarrow> string" where
  "ljust w s = s @ replicate (w - py_len s) CHR '' ''"

definition rjust :: "nat \<Rightarrow> string \<Rightarrow> string" where
  "rjust w s = replicate (w - py_len s) CHR '' '' @ s"

text \<open>\<open>s.replace(old, new)\<close> for a one-character \<open>old\<close>.\<close>

definition replace :: "char \<Rightarrow> string \<Rightarrow> string \<Rightarrow> string" where
  "replace old new s = concat (map (\<lambda>c. if c = old then new else [c]) s)"

definition is_lower :: "char \<Rightarrow> bool" where
  "is_lower c = (97 \<le> (of_char c :: nat) \<and> (of_char c :: nat) \<le> 122)"

definition is_upper :: "char \<Rightarrow> bool" where
  "is_upper c = (65 \<le> (of_char c :: nat) \<and> (of_char c :: nat) \<le> 90)"

definition to_upper :: "char \<Rightarrow> char" where
  "to_upper c = (if is_lower c then char_of ((of_char c :: nat) - 32) else c)"

definition to_lower :: "char \<Rightarrow> char" where
  "to_lower c = (if is_upper c then char_of ((of_char c :: nat) + 32) else c)"

text \<open>
  \<open>s.title()\<close>: a letter that follows a letter is lowered, any other letter is raised.
  The flag is Python's \<open>previous_is_cased\<close>.
\<close>

fun title_from :: "bool \<Rightarrow> string \<Rightarrow> string" where
  "title_from previous_is_cased [] = []"
| "title_from previous_is_cased (c # cs) =
     (if previous_is_cased then to_lower c else to_upper c)
       # title_from (is_lower c \<or> is_upper c) cs"

definition title :: "string \<Rightarrow> string" where
  "title s = title_from False s"

text \<open>
  \<open>s.strip()\<close> removes from both ends the characters Python counts as whitespace:
  U+0009 to U+000D, U+001C to U+0020, U+0085, U+00A0, U+1680, U+2000 to U+200A, U+2028,
  U+2029, U+202F, U+205F and U+3000, here in their UTF-8 encodings.
\<close>

definition whitespace :: "string list" where
  "whitespace =
     [[CHR 0x09], [CHR 0x0A], [CHR 0x0B], [CHR 0x0C], [CHR 0x0D],
      [CHR 0x1C], [CHR 0x1D], [CHR 0x1E], [CHR 0x1F], [CHR 0x20],
      [CHR 0xC2, CHR 0x85], [CHR 0xC2, CHR 0xA0], [CHR 0xE1, CHR 0x9A, CHR 0x80],
      [CHR 0xE2, CHR 0x80, CHR 0x80], [CHR 0xE2, CHR 0x80, CHR 0x81],
      [CHR 0xE2, CHR 0x80, CHR 0x82], [CHR 0xE2, CHR 0x80, CHR 0x83],
      [CHR 0xE2, CHR 0x80, CHR 0x84], [CHR 0xE2, CHR 0x80, CHR 0x85],
      [CHR 0xE2, CHR 0x80, CHR 0x86], [CHR 0xE2, CHR 0x80, CHR 0x87],
      [CHR 0xE2, CHR 0x80, CHR 0x88], [CHR 0xE2, CHR 0x80, CHR 0x89],
      [CHR 0xE2, CHR 0x80, CHR 0x8A], [CHR 0xE2, CHR 0x80, CHR 0xA8],
      [CHR 0xE2, CHR 0x80, CHR 0xA9], [CHR 0xE2, CHR 0x80, CHR 0xAF],
      [CHR 0xE2, CHR 0x81, CHR 0x9F], [CHR 0xE3, CHR 0x80, CHR 0x80]]"

function lstrip :: "string \<Rightarrow> string" where
  "lstrip s =
     (case find (\<lambda>p. prefix p s) whitespace of
        Some p \<Rightarrow> lstrip (drop (length p) s)
      | None \<Rightarrow> s)"
  by pat_completeness auto
termination
proof (relation "measure length")
  show "wf (measure length)" by simp
next
  fix s p
  assume "find (\<lambda>p. prefix p s) whitespace = Some p"
  then have "p \<in> set whitespace" and "prefix p s"
    by (auto simp: find_Some_iff)
  then have "p \<noteq> []" by (auto simp: whitespace_def)
  with \<open>prefix p s\<close> have "length (drop (length p) s) < length s"
    by (cases s) (auto simp: prefix_def)
  then show "(drop (length p) s, s) \<in> measure length" by simp
qed

declare lstrip.simps [simp del]

function rstrip :: "string \<Rightarrow> string" where
  "rstrip s =
     (case find (\<lambda>p. suffix p s) whitespace of
        Some p \<Rightarrow> rstrip (take (length s - length p) s)
      | None \<Rightarrow> s)"
  by pat_completeness auto
termination
proof (relation "measure length")
  show "wf (measure length)" by simp
next
  fix s p
  assume "find (\<lambda>p. suffix p s) whitespace = Some p"
  then have "p \<in> set whitespace" and "suffix p s"
    by (auto simp: find_Some_iff)
  then have "p \<noteq> []" by (auto simp: whitespace_def)
  with \<open>suffix p s\<close> have "length (take (length s - length p) s) < length s"
    by (auto simp: suffix_def)
  then show "(take (length s - length p) s, s) \<in> measure length" by simp
qed

declare rstrip.simps [simp del]

definition strip :: "string \<Rightarrow> string" where
  "strip s = rstrip (lstrip s)"

text \<open>\<open>sep.join(parts)\<close>.\<close>

fun join :: "string \<Rightarrow> string list \<Rightarrow> string" where
  "join sep [] = []"
| "join sep [x] = x"
| "join sep (x # y # ys) = x @ sep @ join sep (y # ys)"

text \<open>
  \<open>requests.utils.quote\<close>, which is \<open>urllib.parse.quote\<close> with \<open>safe = '/'\<close>: letters,
  digits and \<open>_ . - ~ /\<close> stay, every other byte becomes \<open>%XX\<close>.
\<close>

definition is_safe :: "char \<Rightarrow> bool" where
  "is_safe c = (is_lower c \<or> is_upper c \<or> (48 \<le> (of_char c :: nat) \<and> (of_char c :: nat) \<le> 57)
                \<or> c \<in> set ''_.-~/'')"

definition quote :: "string \<Rightarrow> string" where
  "quote s = concat (map (\<lambda>c. if is_safe c then [c]
                               else [CHR ''%'', ''0123456789ABCDEF'' ! ((of_char c :: nat) div 16),
                                     ''0123456789ABCDEF'' ! ((of_char c :: nat) mod 16)]) s)"

section \<open>Configuration, history and the outside world\<close>

text \<open>The dict returned by \<open>load_config\<close>; \<open>main\<close> takes it as an input.\<close>

record config =
  cfg_urls :: "string list"
  cfg_api_key :: string
  cfg_threshold :: int
  cfg_smtp_host :: string
  cfg_smtp_port :: int
  cfg_smtp_user :: string
  cfg_smtp_password :: string
  cfg_email_from :: string
  cfg_email_to :: string
  cfg_categories :: "string list"

text \<open>
  The persisted history, in the shape \<open>main\<close> writes it:
  \<open>{"runs": [{"date": ..., "results": [{"url": ..., "scores": {...}}, ...]}, ...]}\<close>.
  A run of this shape is a non-empty dict, so \<open>if previous_run:\<close> holds for it, and it has
  the key \<open>results\<close> that \<open>previous_run.get("results", [])\<close> reads.
\<close>

record stored_result =
  s_url :: string
  s_scores :: score_record

record run =
  r_date :: string
  r_results :: "stored_result list"

record history =
  h_runs :: "run list"

text \<open>
  What \<open>history.json\<close> holds when it exists: a document \<open>json.load\<close> decodes to a history,
  or text that \<open>json.load\<close> rejects with \<open>JSONDecodeError\<close>. The decoder belongs to the
  standard library; the model takes its verdict on the file as part of the input. A
  well-formed document of another shape, on which \<open>main\<close> would raise \<open>KeyError\<close> or
  \<open>TypeError\<close> later, is outside the model.
\<close>

datatype file_content = Malformed | Document history

text \<open>The exceptions that leave a function of the program.\<close>

datatype error = SystemExit int | JSONDecodeError | TypeError

text \<open>
  The answer of the PageSpeed API to one request: \<open>requests.get\<close>, \<open>raise_for_status\<close> or
  \<open>response.json\<close> raises a \<open>RequestException\<close>, or the body decodes to a document whose
  \<open>lighthouseResult.categories\<close> (the empty dict when a level is absent) is the given map.
  An entry is \<open>Some n\<close> when its \<open>score\<close> is a number, \<open>n\<close> being the value of
  \<open>int(score * 100)\<close> (floating point, not computed here), and \<open>None\<close> when its
  \<open>score\<close> is \<open>null\<close>, on which \<open>score * 100\<close> raises \<open>TypeError\<close>.
\<close>

datatype response = RequestException | Json "string \<rightharpoonup> int option"

text \<open>The message \<open>send_email\<close> hands to the SMTP server.\<close>

record message =
  m_subject :: string
  m_from :: string
  m_to :: string
  m_text :: string
  m_html :: string

text \<open>
  The state outside the process: the history file (\<open>None\<close> when it does not exist) and the
  order in which the run wrote the file and called \<open>send_email\<close>.
\<close>

datatype event = Save_history history | Send_email string string string

record world =
  history_path :: "file_content option"
  trace :: "event list"

text \<open>One entry of \<open>current_results\<close>.\<close>

record entry =
  e_url :: string
  e_scores :: score_record
  e_previous :: score_record
  e_changes :: "change list"

section \<open>History store\<close>

definition json_load :: "file_content \<Rightarrow> error + history" where
  "json_load f = (case f of Malformed \<Rightarrow> Inl JSONDecodeError | Document h \<Rightarrow> Inr h)"

definition load_history :: "world \<Rightarrow> error + history" where
  "load_history w =
     (case history_path w of
        Some f \<Rightarrow> json_load f
      | None \<Rightarrow> Inr \<lparr>h_runs = []\<rparr>)"

definition save_history :: "history \<Rightarrow> world \<Rightarrow> world" where
  "save_history h w =
     w\<lparr>history_path := Some (Document h), trace := trace w @ [Save_history h]\<rparr>"

text \<open>
  \<open>history["runs"][-1] if history["runs"] else None\<close>, the lookup of the latest run at the
  start of \<open>main\<close>.
\<close>

definition previous_run :: "history \<Rightarrow> run option" where
  "previous_run h = (if h_runs h \<noteq> [] then Some (last (h_runs h)) else None)"

text \<open>
  The append stage of \<open>main\<close>: \<open>history["runs"].append(run)\<close>, then the cut to the last 52
  runs; \<open>runs[-52:]\<close> of a list longer than 52 drops its first \<open>len(runs) - 52\<close> elements.
\<close>

definition append_run :: "history \<Rightarrow> run \<Rightarrow> history" where
  "append_run h r =
     (let h1 = h\<lparr>h_runs := h_runs h @ [r]\<rparr> in
      if length (h_runs h1) > 52
      then h1\<lparr>h_runs := drop (length (h_runs h1) - 52) (h_runs h1)\<rparr>
      else h1)"

section \<open>Score fetch\<close>

definition PAGESPEED_API_URL :: string where
  "PAGESPEED_API_URL = ''https://www.googleapis.com/pagespeedonline/v5/runPagespeed''"

definition full_url :: "string \<Rightarrow> string \<Rightarrow> string list \<Rightarrow> string" where
  "full_url url api_key categories =
     PAGESPEED_API_URL @ ''?'' @
     join ''&'' ([''url='' @ quote url, ''strategy=mobile'']
                 @ map (\<lambda>cat. ''category='' @ cat) categories
                 @ (if api_key \<noteq> [] then [''key='' @ api_key] else []))"

text \<open>
  \<open>scores[cat] = int(entry["score"] * 100)\<close>: \<open>AList.update\<close> overwrites the key in place
  or appends it, as a dict does.
\<close>

definition set_score :: "string \<Rightarrow> int option \<Rightarrow> score_record \<Rightarrow> error + score_record" where
  "set_score cat e scores =
     (case e of None \<Rightarrow> Inl TypeError | Some v \<Rightarrow> Inr (AList.update cat v scores))"

text \<open>The body of the loop of \<open>run_lighthouse\<close> that extracts the scores.\<close>

definition extract_step :: "(string \<rightharpoonup> int option) \<Rightarrow> score_record \<Rightarrow> string \<Rightarrow> error + score_record" where
  "extract_step categories_data scores cat =
     (case categories_data cat of
        Some e \<Rightarrow> set_score cat e scores
      | None \<Rightarrow>
          (case categories_data (replace CHR ''-'' [] cat) of
             Some e \<Rightarrow> set_score cat e scores
           | None \<Rightarrow>
               (if cat = ''best-practices'' \<and> categories_data ''best-practices'' \<noteq> None
                then (case categories_data ''best-practices'' of
                        Some e \<Rightarrow> set_score cat e scores
                      | None \<Rightarrow> Inr scores)
                else Inr scores)))"

fun extract_scores :: "(string \<rightharpoonup> int option) \<Rightarrow> score_record \<Rightarrow> string list \<Rightarrow> error + score_record" where
  "extract_scores categories_data scores [] = Inr scores"
| "extract_scores categories_data scores (cat # rest) =
     (case extract_step categories_data scores cat of
        Inl e \<Rightarrow> Inl e
      | Inr scores' \<Rightarrow> extract_scores categories_data scores' rest)"

text \<open>
  \<open>run_lighthouse\<close>: \<open>Inr None\<close> is the \<open>return None\<close> of the \<open>except\<close> clause,
  \<open>Inl\<close> an exception the clause does not catch. The \<open>params\<close> dict of the source is
  never read and is left out.
\<close>

definition run_lighthouse :: "(string \<Rightarrow> response) \<Rightarrow> string \<Rightarrow> string \<Rightarrow> string list \<Rightarrow> error + score_record option" where
  "run_lighthouse http_get url api_key categories =
     (case http_get (full_url url api_key categories) of
        RequestException \<Rightarrow> Inr None
      | Json categories_data \<Rightarrow>
          (case extract_scores categories_data [] categories of
             Inl e \<Rightarrow> Inl e
           | Inr scores \<Rightarrow> Inr (Some scores)))"

section \<open>Reports\<close>

text \<open>The structured report. The constants are the literal parts of the source's template.\<close>

definition html_head :: "string \<Rightarrow> string" where
  \<open>html_head run_date =
     ''\<newline>'' @
     ''    <html>\<newline>'' @
     ''    <head>\<newline>'' @
     ''        <style>\<newline>'' @
     ''            body { font-family: Arial, sans-serif; line-height: 1.6; color: #333; }\<newline>'' @
     ''            .container { max-width: 600px; margin: 0 auto; padding: 20px; }\<newline>'' @
     ''            h1 { color: #2c3e50; border-bottom: 2px solid #3498db; padding-bottom: 10px; }\<newline>'' @
     ''            h2 { color: #34495e; margin-top: 30px; }\<newline>'' @
     ''            .url-section { background: #f9f9f9; padding: 15px; border-radius: 8px; margin: 20px 0; }\<newline>'' @
     ''            .score-table { width: 100%; border-collapse: collapse; margin: 15px 0; }\<newline>'' @
     ''            .score-table th, .score-table td { padding: 10px; text-align: left; border-bottom: 1px solid #ddd; }\<newline>'' @
     ''            .score-table th { background: #3498db; color: white; }\<newline>'' @
     ''            .improved { color: #27ae60; font-weight: bold; }\<newline>'' @
     ''            .declined { color: #e74c3c; font-weight: bold; }\<newline>'' @
     ''            .no-change { color: #7f8c8d; }\<newline>'' @
     ''            .alert { background: #fff3cd; border: 1px solid #ffc107; padding: 10px; border-radius: 4px; margin: 10px 0; }\<newline>'' @
     ''            .score-badge { display: inline-block; padding: 4px 12px; border-radius: 20px; font-weight: bold; }\<newline>'' @
     ''            .score-good { background: #d4edda; color: #155724; }\<newline>'' @
     ''            .score-ok { background: #fff3cd; color: #856404; }\<newline>'' @
     ''            .score-bad { background: #f8d7da; color: #721c24; }\<newline>'' @
     ''        </style>\<newline>'' @
     ''    </head>\<newline>'' @
     ''    <body>\<newline>'' @
     ''        <div class="container">\<newline>'' @
     ''            <h1>'' @ sym_report @
     '' Lighthouse Report</h1>\<newline>            <p><strong>Run Date:</strong> '' @ run_date @
     ''</p>\<newline>    ''\<close>

definition html_table_head :: string where
  \<open>html_table_head =
     ''\<newline>'' @
     ''            <table class="score-table">\<newline>'' @
     ''                <tr>\<newline>'' @
     ''                    <th>Category</th>\<newline>'' @
     ''                    <th>Current</th>\<newline>'' @
     ''                    <th>Previous</th>\<newline>'' @
     ''                    <th>Change</th>\<newline>'' @
     ''                </tr>\<newline>'' @
     ''        ''\<close>

definition html_tail :: string where
  \<open>html_tail =
     ''\<newline>        </div>\<newline>    </body>\<newline>    </html>\<newline>    ''\<close>

text \<open>\<open>{prev_score}\<close>, where \<open>prev_score = previous.get(category, "N/A")\<close>.\<close>

definition show_prev :: "int option \<Rightarrow> string" where
  "show_prev prev_score = (case prev_score of None \<Rightarrow> ''N/A'' | Some p \<Rightarrow> str_int p)"

text \<open>The local variable \<open>badge_class\<close> of \<open>format_email_html\<close>: the tier of a score.\<close>

definition badge_class :: "int \<Rightarrow> string" where
  "badge_class score =
     (if score \<ge> 90 then ''score-good''
      else if score \<ge> 50 then ''score-ok''
      else ''score-bad'')"

text \<open>The local variable \<open>change_html\<close> of \<open>format_email_html\<close>.\<close>

definition change_html :: "int \<Rightarrow> int option \<Rightarrow> string" where
  \<open>change_html score prev_score =
     (case prev_score of
        Some p \<Rightarrow>
          (let diff = score - p in
           if diff > 0 then ''<span class="improved">+'' @ str_int diff @ '' '' @ sym_up @ ''</span>''
           else if diff < 0 then ''<span class="declined">'' @ str_int diff @ '' '' @ sym_down @ ''</span>''
           else ''<span class="no-change">'' @ sym_dash @ ''</span>'')
      | None \<Rightarrow> ''<span class="no-change">First run</span>'')\<close>

text \<open>The body of the inner loop of \<open>format_email_html\<close>, on the accumulator \<open>html\<close>.\<close>

definition html_row :: "score_record \<Rightarrow> string \<Rightarrow> string \<times> int \<Rightarrow> string" where
  \<open>html_row previous html item =
     (case item of (category, score) \<Rightarrow>
        (let prev_score = map_of previous category
         in html @
            ''\<newline>                <tr>\<newline>                    <td>'' @
            title (replace CHR ''-'' '' '' category) @
            ''</td>\<newline>                    <td><span class="score-badge '' @
            badge_class score @ ''">'' @ str_int score @
            ''</span></td>\<newline>                    <td>'' @
            show_prev prev_score @
            ''</td>\<newline>                    <td>'' @
            change_html score prev_score @
            ''</td>\<newline>                </tr>\<newline>            ''))\<close>

text \<open>The body of the outer loop of \<open>format_email_html\<close>.\<close>

definition html_result :: "string \<Rightarrow> entry \<Rightarrow> string" where
  \<open>html_result html result =
     (let url = e_url result; scores = e_scores result;
          changes = e_changes result; previous = e_previous result;
          html = html @ ''<div class="url-section"><h2>'' @ url @ ''</h2>'';
          html = (if changes \<noteq> []
                  then html @ ''<div class="alert">'' @ sym_warning @ '' Score changes detected!</div>''
                  else html);
          html = html @ html_table_head;
          html = foldl (html_row previous) html scores
      in html @ ''</table></div>'')\<close>

definition format_email_html :: "entry list \<Rightarrow> string \<Rightarrow> string" where
  "format_email_html results run_date =
     (let html = html_head run_date;
          html = foldl html_result html results
      in html @ html_tail)"

text \<open>The plain report: the local variable \<open>change\<close> of \<open>format_email_text\<close>.\<close>

definition change_text :: "int \<Rightarrow> int option \<Rightarrow> string" where
  "change_text score prev_score =
     (case prev_score of
        Some p \<Rightarrow>
          (let diff = score - p in
           if diff > 0 then ''+'' @ str_int diff @ '' '' @ sym_up
           else if diff < 0 then str_int diff @ '' '' @ sym_down
           else sym_dash)
      | None \<Rightarrow> ''First run'')"

text \<open>The body of the inner loop of \<open>format_email_text\<close>, on the accumulator \<open>text\<close>.\<close>

definition text_row :: "score_record \<Rightarrow> string \<Rightarrow> string \<times> int \<Rightarrow> string" where
  "text_row previous text item =
     (case item of (category, score) \<Rightarrow>
        (let prev_score = map_of previous category
         in text @ ''  '' @ ljust 20 (title (replace CHR ''-'' '' '' category)) @ '' '' @
            rjust 3 (str_int score) @ '' (was '' @ show_prev prev_score @ '') '' @
            change_text score prev_score @ ''\<newline>''))"

definition text_result :: "string \<Rightarrow> entry \<Rightarrow> string" where
  "text_result text result =
     (let url = e_url result; scores = e_scores result;
          changes = e_changes result; previous = e_previous result;
          text = text @ ''\<newline>'' @ url @ ''\<newline>'' @ replicate (py_len url) CHR ''-'' @
                 ''\<newline>\<newline>'';
          text = (if changes \<noteq> []
                  then text @ sym_warning @ ''  SCORE CHANGES DETECTED!\<newline>\<newline>''
                  else text);
          text = foldl (text_row previous) text scores
      in text @ ''\<newline>'')"

definition format_email_text :: "entry list \<Rightarrow> string \<Rightarrow> string" where
  "format_email_text results run_date =
     (let text = ''LIGHTHOUSE REPORT\<newline>'' @ replicate 50 CHR ''='' @ ''\<newline>Run Date: '' @
                 run_date @ ''\<newline>\<newline>''
      in foldl text_result text results)"

text \<open>
  The qualitative tier of a score in the words of the specification: at least 90 is good,
  at least 50 is ok, anything lower is poor. The source has no such function; the
  structured report encodes the tier in \<open>badge_class\<close>.
\<close>

definition spec_tier :: "int \<Rightarrow> string" where
  "spec_tier score = (if score \<ge> 90 then ''good'' else if score \<ge> 50 then ''ok'' else ''poor'')"

section \<open>Notification\<close>

text \<open>
  \<open>send_email\<close>. The parameter \<open>smtp\<close> is the SMTP session for a message: \<open>True\<close> when
  connecting, logging in and sending all return, \<open>False\<close> when one of them raises, which
  the \<open>except Exception\<close> clause turns into the result \<open>False\<close>.
\<close>

definition send_email :: "(message \<Rightarrow> bool) \<Rightarrow> config \<Rightarrow> string \<Rightarrow> string \<Rightarrow> string \<Rightarrow> world \<Rightarrow> bool \<times> world" where
  "send_email smtp config subject html_body text_body w =
     (let w1 = w\<lparr>trace := trace w @ [Send_email subject html_body text_body]\<rparr> in
      if \<not> (cfg_smtp_user config \<noteq> [] \<and> cfg_smtp_password config \<noteq> [] \<and> cfg_email_to config \<noteq> [])
      then (False, w1)
      else
        (let msg = \<lparr>m_subject = subject,
                     m_from = (if cfg_email_from config \<noteq> [] then cfg_email_from config
                               else cfg_smtp_user config),
                     m_to = cfg_email_to config,
                     m_text = text_body, m_html = html_body\<rparr>
         in if smtp msg then (True, w1) else (False, w1)))"

section \<open>Run aggregator\<close>

text \<open>
  The dict \<open>previous_scores\<close> of \<open>main\<close>, from URL to the Score Record of the latest run.
\<close>

definition previous_scores_of :: "history \<Rightarrow> (string \<times> score_record) list" where
  "previous_scores_of h =
     (case previous_run h of
        None \<Rightarrow> []
      | Some r \<Rightarrow> foldl (\<lambda>previous_scores result.
                           AList.update (s_url result) (s_scores result) previous_scores)
                        [] (r_results r))"

text \<open>
  The audit loop of \<open>main\<close>, on its two accumulators. \<open>if scores:\<close> is false for \<open>None\<close>
  and for the empty dict.
\<close>

fun run_audits :: "(string \<Rightarrow> response) \<Rightarrow> config \<Rightarrow> (string \<times> score_record) list \<Rightarrow> entry list \<Rightarrow> bool \<Rightarrow> string list \<Rightarrow> error + entry list \<times> bool" where
  "run_audits http_get config previous_scores current_results has_changes [] =
     Inr (current_results, has_changes)"
| "run_audits http_get config previous_scores current_results has_changes (url # urls) =
     (case run_lighthouse http_get url (cfg_api_key config) (cfg_categories config) of
        Inl e \<Rightarrow> Inl e
      | Inr None \<Rightarrow>
          run_audits http_get config previous_scores current_results has_changes urls
      | Inr (Some scores) \<Rightarrow>
          (if scores \<noteq> [] then
             (let prev = (case map_of previous_scores url of Some p \<Rightarrow> p | None \<Rightarrow> []);
                  changes = compare_scores scores prev (cfg_threshold config);
                  has_changes = (if changes \<noteq> [] then True else has_changes);
                  current_results = current_results @
                    [\<lparr>e_url = url, e_scores = scores, e_previous = prev, e_changes = changes\<rparr>]
              in run_audits http_get config previous_scores current_results has_changes urls)
           else run_audits http_get config previous_scores current_results has_changes urls))"

text \<open>The call of \<open>run_lighthouse\<close> in the loop, for one URL of the batch.\<close>

definition fetch_of :: "config \<Rightarrow> (string \<Rightarrow> response) \<Rightarrow> string \<Rightarrow> error + score_record option" where
  "fetch_of config http_get url =
     run_lighthouse http_get url (cfg_api_key config) (cfg_categories config)"

text \<open>
  The entry one iteration of the loop appends to \<open>current_results\<close>, if it appends one:
  the fetch returned a non-empty Score Record.
\<close>

definition audit_entry :: "(string \<Rightarrow> response) \<Rightarrow> config \<Rightarrow> (string \<times> score_record) list \<Rightarrow> string \<Rightarrow> entry option" where
  "audit_entry http_get config previous_scores url =
     (case fetch_of config http_get url of
        Inr (Some scores) \<Rightarrow>
          (if scores \<noteq> [] then
             (let prev = (case map_of previous_scores url of Some p \<Rightarrow> p | None \<Rightarrow> [])
              in Some \<lparr>e_url = url, e_scores = scores, e_previous = prev,
                        e_changes = compare_scores scores prev (cfg_threshold config)\<rparr>)
           else None)
      | _ \<Rightarrow> None)"

text \<open>The run \<open>main\<close> appends: the date and, of each entry, the URL and the scores.\<close>

definition new_run :: "string \<Rightarrow> entry list \<Rightarrow> run" where
  "new_run run_date current_results =
     \<lparr>r_date = run_date,
      r_results = map (\<lambda>r. \<lparr>s_url = e_url r, s_scores = e_scores r\<rparr>) current_results\<rparr>"

text \<open>\<open>[u.strip() for u in config["urls"] if u.strip()]\<close>, the batch of URLs of a run.\<close>

definition valid_urls :: "config \<Rightarrow> string list" where
  "valid_urls config = map strip (filter (\<lambda>u. strip u \<noteq> []) (cfg_urls config))"

text \<open>
  \<open>main\<close>, from the configuration \<open>load_config\<close> returned, the network, the clock
  (\<open>datetime.now().isoformat()\<close>) and the SMTP server. Printing is left out.
\<close>

definition main :: "config \<Rightarrow> (string \<Rightarrow> response) \<Rightarrow> string \<Rightarrow> (message \<Rightarrow> bool) \<Rightarrow> world \<Rightarrow> error + world" where
  "main config http_get now smtp w =
     (if cfg_urls config = [] then Inl (SystemExit 1)
      else
        (let urls = valid_urls config in
         if urls = [] then Inl (SystemExit 1)
         else
           (case load_history w of
              Inl e \<Rightarrow> Inl e
            | Inr history \<Rightarrow>
                (let run_date = now;
                     previous_scores = previous_scores_of history
                 in case run_audits http_get config previous_scores [] False urls of
                      Inl e \<Rightarrow> Inl e
                    | Inr (current_results, has_changes) \<Rightarrow>
                        (let history = append_run history (new_run run_date current_results);
                             w = save_history history w
                         in if current_results \<noteq> [] then
                              (let subject =
                                     (if has_changes
                                      then sym_alert @ '' Lighthouse Alert: Score Changes Detected''
                                      else sym_check @ '' Lighthouse Report: No Significant Changes'');
                                   html_body = format_email_html current_results run_date;
                                   text_body = format_email_text current_results run_date
                               in Inr (snd (send_email smtp config subject html_body text_body w)))
                            else Inr w)))))"

section \<open>Scenarios\<close>

text \<open>
  Concrete collaborators for the scenarios below: a network that answers the listed
  requests and fails every other one, and SMTP servers that always deliver or always fail.
\<close>

definition network :: "(string \<times> response) list \<Rightarrow> string \<Rightarrow> response" where
  "network table request =
     (case map_of table request of Some r \<Rightarrow> r | None \<Rightarrow> RequestException)"

definition smtp_delivers :: "message \<Rightarrow> bool" where
  "smtp_delivers msg = True"

definition smtp_fails :: "message \<Rightarrow> bool" where
  "smtp_fails msg = False"

definition scenario_config :: "string list \<Rightarrow> config" where
  "scenario_config urls =
     \<lparr>cfg_urls = urls, cfg_api_key = [], cfg_threshold = 5,
      cfg_smtp_host = ''smtp.gmail.com'', cfg_smtp_port = 587,
      cfg_smtp_user = ''monitor'', cfg_smtp_password = ''secret'',
      cfg_email_from = [], cfg_email_to = ''ops@example.org'',
      cfg_categories = [''performance'', ''seo'']\<rparr>"

section \<open>Properties of change detection\<close>

lemma foldl_compare_step:
  "foldl (compare_step previous t) acc current = acc @ foldl (compare_step previous t) [] current"
proof (induction current arbitrary: acc)
  case Nil
  show ?case by simp
next
  case (Cons item rest)
  have "foldl (compare_step previous t) acc (item # rest)
        = compare_step previous t acc item @ foldl (compare_step previous t) [] rest"
    using Cons.IH [of "compare_step previous t acc item"] by simp
  moreover have "foldl (compare_step previous t) [] (item # rest)
        = compare_step previous t [] item @ foldl (compare_step previous t) [] rest"
    using Cons.IH [of "compare_step previous t [] item"] by simp
  moreover have "compare_step previous t acc item = acc @ compare_step previous t [] item"
    by (cases item) (simp add: compare_step_def Let_def split: option.splits)
  ultimately show ?case by simp
qed

lemma compare_scores_Nil: "compare_scores [] previous t = []"
  by (simp add: compare_scores_def)

lemma compare_scores_Cons:
  "compare_scores (item # rest) previous t
     = compare_step previous t [] item @ compare_scores rest previous t"
  unfolding compare_scores_def
  using foldl_compare_step [of previous t "compare_step previous t [] item" rest] by simp

lemma compare_step_member:
  "ch \<in> set (compare_step previous t [] (c, s)) \<longleftrightarrow>
     (\<exists>p. map_of previous c = Some p \<and> t \<le> \<bar>s - p\<bar> \<and> ch = change_of c s p)"
proof (cases "map_of previous c")
  case None
  then show ?thesis by (simp add: compare_step_def)
next
  case (Some p)
  then have "compare_step previous t [] (c, s) = (if t \<le> \<bar>s - p\<bar> then [change_of c s p] else [])"
    by (simp add: compare_step_def Let_def change_of_def)
  with Some show ?thesis by auto
qed

lemma compare_scores_member:
  "ch \<in> set (compare_scores current previous t) \<longleftrightarrow>
     (\<exists>c s p. (c, s) \<in> set current \<and> map_of previous c = Some p \<and> t \<le> \<bar>s - p\<bar> \<and>
        ch = change_of c s p)"
proof (induction current)
  case Nil
  show ?case by (simp add: compare_scores_Nil)
next
  case (Cons item rest)
  obtain c0 s0 where item: "item = (c0, s0)" by (cases item)
  have "ch \<in> set (compare_scores (item # rest) previous t) \<longleftrightarrow>
          ch \<in> set (compare_step previous t [] (c0, s0)) \<or> ch \<in> set (compare_scores rest previous t)"
    by (simp add: compare_scores_Cons item)
  also have "\<dots> \<longleftrightarrow> (\<exists>p. map_of previous c0 = Some p \<and> t \<le> \<bar>s0 - p\<bar> \<and> ch = change_of c0 s0 p) \<or>
      (\<exists>c s p. (c, s) \<in> set rest \<and> map_of previous c = Some p \<and> t \<le> \<bar>s - p\<bar> \<and> ch = change_of c s p)"
    by (simp only: compare_step_member Cons.IH)
  also have "\<dots> \<longleftrightarrow> (\<exists>c s p. (c, s) \<in> set (item # rest) \<and> map_of previous c = Some p \<and>
        t \<le> \<bar>s - p\<bar> \<and> ch = change_of c s p)"
    unfolding item by auto
  finally show ?case .
qed

lemma distinct_map_of_iff:
  "distinct (map fst xs) \<Longrightarrow> (k, v) \<in> set xs \<longleftrightarrow> map_of xs k = Some v"
  by (auto dest: map_of_SomeD)

text \<open>
  Claim C1. For a Score Record \<open>current\<close> (a dict, so its keys are distinct), a Score
  Record \<open>previous\<close> and any threshold \<open>t\<close>, \<open>compare_scores\<close> emits a Change for
  category \<open>c\<close> if and only if \<open>c\<close> is a key of \<open>current\<close>, a key of \<open>previous\<close>, and
  \<open>abs(current[c] - previous[c]) >= t\<close>, the bound included; a category that is not a key
  of \<open>previous\<close> produces no Change.
\<close>

theorem compare_scores_emits_iff:
  assumes "distinct (map fst current)"
  shows "((\<exists>ch \<in> set (compare_scores current previous t). c_category ch = c) \<longleftrightarrow>
            (\<exists>s p. map_of current c = Some s \<and> map_of previous c = Some p \<and> t \<le> \<bar>s - p\<bar>))
         \<and> (map_of previous c = None \<longrightarrow>
              (\<forall>ch \<in> set (compare_scores current previous t). c_category ch \<noteq> c))"
proof -
  have cat: "c_category (change_of c' s p) = c'" for c' s p
    by (simp add: change_of_def)
  have "(\<exists>ch \<in> set (compare_scores current previous t). c_category ch = c) \<longleftrightarrow>
          (\<exists>s p. (c, s) \<in> set current \<and> map_of previous c = Some p \<and> t \<le> \<bar>s - p\<bar>)"
    unfolding Bex_def compare_scores_member using cat by metis
  also have "\<dots> \<longleftrightarrow> (\<exists>s p. map_of current c = Some s \<and> map_of previous c = Some p \<and> t \<le> \<bar>s - p\<bar>)"
    using distinct_map_of_iff [OF assms] by simp
  finally have iff: "(\<exists>ch \<in> set (compare_scores current previous t). c_category ch = c) \<longleftrightarrow>
      (\<exists>s p. map_of current c = Some s \<and> map_of previous c = Some p \<and> t \<le> \<bar>s - p\<bar>)" .
  then have "map_of previous c = None \<longrightarrow>
      (\<forall>ch \<in> set (compare_scores current previous t). c_category ch \<noteq> c)"
    by auto
  with iff show ?thesis by blast
qed

theorem compare_scores_emits_iff_witness:
  "distinct (map fst [(''performance'', 79 :: int), (''seo'', 90)])
   \<and> (\<exists>ch \<in> set (compare_scores [(''performance'', 79), (''seo'', 90)] [(''performance'', 85)] 5).
         c_category ch = ''performance'')
   \<and> map_of [(''performance'', 85 :: int)] ''seo'' = None
   \<and> ''seo'' \<notin> c_category ` set (compare_scores [(''performance'', 79), (''seo'', 90)] [(''performance'', 85)] 5)"
proof -
  have d: "distinct (map fst [(''performance'', 79 :: int), (''seo'', 90)])" by simp
  have r: "\<exists>s p. map_of [(''performance'', 79 :: int), (''seo'', 90)] ''performance'' = Some s
             \<and> map_of [(''performance'', 85 :: int)] ''performance'' = Some p \<and> 5 \<le> \<bar>s - p\<bar>"
    by simp
  have n: "map_of [(''performance'', 85 :: int)] ''seo'' = None" by simp
  from compare_scores_emits_iff [OF d, of "[(''performance'', 85)]" 5 "''performance''"] r
  have a: "\<exists>ch \<in> set (compare_scores [(''performance'', 79), (''seo'', 90)] [(''performance'', 85)] 5).
         c_category ch = ''performance''" by blast
  from compare_scores_emits_iff [OF d, of "[(''performance'', 85)]" 5 "''seo''"]
  have "map_of [(''performance'', 85 :: int)] ''seo'' = None \<longrightarrow>
      (\<forall>ch \<in> set (compare_scores [(''performance'', 79), (''seo'', 90)] [(''performance'', 85)] 5).
         c_category ch \<noteq> ''seo'')"
    by (rule conjunct2)
  then have all: "\<forall>ch \<in> set (compare_scores [(''performance'', 79), (''seo'', 90)] [(''performance'', 85)] 5).
         c_category ch \<noteq> ''seo''"
    using n by (rule mp)
  have b: "''seo'' \<notin> c_category ` set (compare_scores [(''performance'', 79), (''seo'', 90)] [(''performance'', 85)] 5)"
  proof
    assume "''seo'' \<in> c_category ` set (compare_scores [(''performance'', 79), (''seo'', 90)] [(''performance'', 85)] 5)"
    then obtain ch where eq: "''seo'' = c_category ch"
      and m: "ch \<in> set (compare_scores [(''performance'', 79), (''seo'', 90)] [(''performance'', 85)] 5)"
      by (rule imageE)
    from all m have "c_category ch \<noteq> ''seo''" by (rule bspec)
    with eq show False by simp
  qed
  from d a n b show ?thesis by blast
qed

text \<open>
  Claim C2, as stated, fails at threshold 0: an unchanged score passes
  \<open>abs(diff) >= threshold\<close>, so a Change with difference 0 is emitted, and its label is
  \<open>declined\<close>.
\<close>

theorem compare_scores_zero_diff_counterexample:
  "compare_scores [(''performance'', 85)] [(''performance'', 85)] 0
     = [\<lparr>c_category = ''performance'', c_previous = 85, c_current = 85, c_diff = 0,
         c_direction = ''declined''\<rparr>]"
  by (simp add: compare_scores_def compare_step_def)

text \<open>
  Claim C2, amended. For every Change emitted by \<open>compare_scores\<close>, the difference is
  current minus previous, the label is \<open>improved\<close> if and only if the difference is
  strictly positive and \<open>declined\<close> otherwise; for every threshold \<open>t >= 1\<close> no Change
  with difference 0 is emitted, so there the label is \<open>declined\<close> if and only if the
  difference is strictly negative.
\<close>

theorem compare_scores_direction:
  assumes "ch \<in> set (compare_scores current previous t)"
  shows "c_diff ch = c_current ch - c_previous ch
         \<and> (c_direction ch = ''improved'' \<longleftrightarrow> c_diff ch > 0)
         \<and> (c_direction ch = ''declined'' \<longleftrightarrow> c_diff ch \<le> 0)
         \<and> (1 \<le> t \<longrightarrow> c_diff ch \<noteq> 0 \<and> (c_direction ch = ''declined'' \<longleftrightarrow> c_diff ch < 0))"
proof -
  from assms obtain c s p where t: "t \<le> \<bar>s - p\<bar>" and ch: "ch = change_of c s p"
    unfolding compare_scores_member by blast
  have 1: "c_diff ch = c_current ch - c_previous ch"
    by (simp add: ch change_of_def)
  have 2: "c_direction ch = ''improved'' \<longleftrightarrow> c_diff ch > 0"
    by (simp add: ch change_of_def)
  have 3: "c_direction ch = ''declined'' \<longleftrightarrow> c_diff ch \<le> 0"
    by (simp add: ch change_of_def)
  have d: "c_diff ch = s - p"
    by (simp add: ch change_of_def)
  have 4: "1 \<le> t \<longrightarrow> c_diff ch \<noteq> 0 \<and> (c_direction ch = ''declined'' \<longleftrightarrow> c_diff ch < 0)"
    using t 3 d by auto
  from 1 2 3 4 show ?thesis by blast
qed

theorem compare_scores_direction_witness:
  "\<lparr>c_category = ''performance'', c_previous = 85, c_current = 79, c_diff = - 6,
     c_direction = ''declined''\<rparr> \<in> set (compare_scores [(''performance'', 79)] [(''performance'', 85)] 5)
   \<and> (1::int) \<le> 5
   \<and> c_diff \<lparr>c_category = ''performance'', c_previous = 85, c_current = 79, c_diff = - 6,
              c_direction = ''declined''\<rparr> < 0"
proof -
  have m: "\<lparr>c_category = ''performance'', c_previous = 85, c_current = 79, c_diff = - 6,
     c_direction = ''declined''\<rparr> \<in> set (compare_scores [(''performance'', 79)] [(''performance'', 85)] 5)"
    by (simp add: compare_scores_def compare_step_def)
  from compare_scores_direction [OF m] show ?thesis using m by simp
qed

text \<open>
  Claim C3, as stated, fails at threshold 0: comparing a non-empty record against itself
  yields a Change for each of its categories.
\<close>

theorem compare_scores_self_counterexample:
  "compare_scores [(''seo'', 100)] [(''seo'', 100)] 0 \<noteq> []"
  by (simp add: compare_scores_def compare_step_def)

text \<open>
  Claim C3, amended. For every Score Record \<open>a\<close> (a dict, so its keys are distinct) and
  every threshold \<open>t >= 1\<close>, \<open>compare_scores(a, a, t)\<close> is the empty list.
\<close>

theorem compare_scores_self:
  assumes "distinct (map fst a)" and "1 \<le> t"
  shows "compare_scores a a t = []"
proof (rule ccontr)
  assume "compare_scores a a t \<noteq> []"
  then obtain ch where "ch \<in> set (compare_scores a a t)"
    by (cases "compare_scores a a t") auto
  then obtain c s p where m: "(c, s) \<in> set a" and p: "map_of a c = Some p" and t: "t \<le> \<bar>s - p\<bar>"
    unfolding compare_scores_member by blast
  from m p have "s = p"
    using distinct_map_of_iff [OF assms(1), of c s] by simp
  with t assms(2) show False by simp
qed

theorem compare_scores_self_witness:
  "distinct (map fst [(''performance'', 85 :: int), (''seo'', 100)]) \<and> (1::int) \<le> 1
   \<and> compare_scores [(''performance'', 85), (''seo'', 100)] [(''performance'', 85), (''seo'', 100)] 1 = []"
proof -
  have d: "distinct (map fst [(''performance'', 85 :: int), (''seo'', 100)])" by simp
  have t: "(1::int) \<le> 1" by simp
  from compare_scores_self [OF d t] d t show ?thesis by blast
qed

section \<open>Lemmas on the history store and the audit loop\<close>

lemma append_run_runs:
  "h_runs (append_run h r) = drop (length (h_runs h) + 1 - 52) (h_runs h @ [r])"
  by (simp add: append_run_def Let_def)

lemma append_run_length: "length (h_runs (append_run h r)) \<le> 52"
  by (simp add: append_run_runs)

lemma append_run_last: "previous_run (append_run h r) = Some r"
  by (simp add: previous_run_def append_run_def Let_def)

lemma foldl_append_run:
  "length (h_runs h) \<le> 52 \<Longrightarrow>
   h_runs (foldl append_run h rs) = drop (length (h_runs h) + length rs - 52) (h_runs h @ rs)"
proof (induction rs arbitrary: h)
  case Nil
  then show ?case by simp
next
  case (Cons r rs)
  have le: "length (h_runs (append_run h r)) \<le> 52" by (rule append_run_length)
  show ?case
  proof (cases "length (h_runs h) < 52")
    case True
    then have "h_runs (append_run h r) = h_runs h @ [r]"
      by (simp add: append_run_runs)
    with Cons.IH [OF le] show ?thesis by simp
  next
    case False
    with Cons.prems have l: "length (h_runs h) = 52" by simp
    then have "h_runs (append_run h r) = drop 1 (h_runs h @ [r])"
      by (simp add: append_run_runs)
    with Cons.IH [OF le] l show ?thesis by (simp add: drop_Suc tl_append split: list.splits)
  qed
qed

lemma main_eq:
  assumes "valid_urls config \<noteq> []" and "load_history w = Inr h"
    and "run_audits http_get config (previous_scores_of h) [] False (valid_urls config) = Inr (cr, hc)"
  shows "main config http_get now smtp w =
     (let w1 = save_history (append_run h (new_run now cr)) w in
      if cr \<noteq> [] then
        Inr (w1\<lparr>trace := trace w1 @ [Send_email
               (if hc then sym_alert @ '' Lighthouse Alert: Score Changes Detected''
                else sym_check @ '' Lighthouse Report: No Significant Changes'')
               (format_email_html cr now) (format_email_text cr now)]\<rparr>)
      else Inr w1)"
proof -
  from assms(1) have "cfg_urls config \<noteq> []" by (auto simp: valid_urls_def)
  with assms show ?thesis
    by (simp add: main_def Let_def send_email_def)
qed

lemma run_audits_Cons_skip:
  "fetch_of config http_get u = Inr None \<or> fetch_of config http_get u = Inr (Some []) \<Longrightarrow>
   run_audits http_get config ps cr hc (u # urls) = run_audits http_get config ps cr hc urls"
  by (auto simp: fetch_of_def)

lemma run_audits_Cons_entry:
  "audit_entry http_get config ps u = Some e \<Longrightarrow>
   run_audits http_get config ps cr hc (u # urls) =
     run_audits http_get config ps (cr @ [e]) (e_changes e \<noteq> [] \<or> hc) urls"
  by (auto simp: audit_entry_def fetch_of_def Let_def split: sum.splits option.splits if_splits)

lemma audit_entry_None:
  "audit_entry http_get config ps u = None \<longleftrightarrow>
     (\<exists>e. fetch_of config http_get u = Inl e) \<or> fetch_of config http_get u = Inr None
       \<or> fetch_of config http_get u = Inr (Some [])"
  by (auto simp: audit_entry_def Let_def split: sum.splits option.splits if_splits)

lemma audit_entry_url: "audit_entry http_get config ps u = Some e \<Longrightarrow> e_url e = u"
  by (auto simp: audit_entry_def Let_def split: sum.splits option.splits if_splits)

lemma run_audits_result:
  assumes "\<forall>u \<in> set urls. \<exists>r. fetch_of config http_get u = Inr r"
  shows "run_audits http_get config ps cr hc urls =
           Inr (cr @ List.map_filter (audit_entry http_get config ps) urls,
                hc \<or> (\<exists>e \<in> set (List.map_filter (audit_entry http_get config ps) urls). e_changes e \<noteq> []))"
  using assms
proof (induction urls arbitrary: cr hc)
  case Nil
  show ?case by (simp add: List.map_filter_simps)
next
  case (Cons u urls)
  from Cons.prems have rest: "\<forall>u \<in> set urls. \<exists>r. fetch_of config http_get u = Inr r" by simp
  show ?case
  proof (cases "audit_entry http_get config ps u")
    case None
    with Cons.prems have "fetch_of config http_get u = Inr None \<or> fetch_of config http_get u = Inr (Some [])"
      by (auto simp: audit_entry_None)
    then have "run_audits http_get config ps cr hc (u # urls) = run_audits http_get config ps cr hc urls"
      by (rule run_audits_Cons_skip)
    with None Cons.IH [OF rest] show ?thesis by (simp add: List.map_filter_simps)
  next
    case (Some e)
    from run_audits_Cons_entry [OF Some] Some Cons.IH [OF rest] show ?thesis
      by (auto simp: List.map_filter_simps)
  qed
qed

lemma map_filter_urls:
  "map e_url (List.map_filter (audit_entry http_get config ps) urls)
     = filter (\<lambda>u. audit_entry http_get config ps u \<noteq> None) urls"
  by (induction urls) (auto simp: List.map_filter_simps audit_entry_url split: option.splits)

lemma run_audits_remove:
  assumes "fetch_of config http_get u = Inr None \<or> fetch_of config http_get u = Inr (Some [])"
  shows "run_audits http_get config ps cr hc urls
           = run_audits http_get config ps cr hc (removeAll u urls)"
proof (induction urls arbitrary: cr hc)
  case Nil
  show ?case by simp
next
  case (Cons v urls)
  show ?case
  proof (cases "v = u")
    case True
    with assms Cons.IH show ?thesis by (simp add: run_audits_Cons_skip del: run_audits.simps)
  next
    case False
    with Cons.IH show ?thesis by (auto split: sum.splits option.splits)
  qed
qed

lemma run_audits_cong_networks:
  assumes "\<forall>u \<in> set urls. fetch_of config net1 u = fetch_of config net2 u
             \<or> (fetch_of config net1 u = Inr (Some []) \<and> fetch_of config net2 u = Inr None)"
  shows "run_audits net1 config ps cr hc urls = run_audits net2 config ps cr hc urls"
  using assms
proof (induction urls arbitrary: cr hc)
  case Nil
  show ?case by simp
next
  case (Cons u urls)
  from Cons.prems have rest: "\<forall>u \<in> set urls. fetch_of config net1 u = fetch_of config net2 u
             \<or> (fetch_of config net1 u = Inr (Some []) \<and> fetch_of config net2 u = Inr None)" by simp
  from Cons.prems have "fetch_of config net1 u = fetch_of config net2 u
             \<or> (fetch_of config net1 u = Inr (Some []) \<and> fetch_of config net2 u = Inr None)" by simp
  then show ?case
  proof
    assume "fetch_of config net1 u = fetch_of config net2 u"
    then show ?thesis using Cons.IH [OF rest] by (auto simp: fetch_of_def split: sum.splits option.splits)
  next
    assume a: "fetch_of config net1 u = Inr (Some []) \<and> fetch_of config net2 u = Inr None"
    then have "run_audits net1 config ps cr hc (u # urls) = run_audits net1 config ps cr hc urls"
      and "run_audits net2 config ps cr hc (u # urls) = run_audits net2 config ps cr hc urls"
      by (simp_all add: run_audits_Cons_skip del: run_audits.simps)
    with Cons.IH [OF rest] show ?thesis by simp
  qed
qed

lemma strip_a: "strip ''https://a.example'' = ''https://a.example''"
  by (simp add: strip_def lstrip.simps rstrip.simps whitespace_def suffix_to_prefix)

lemma strip_b: "strip ''https://b.example'' = ''https://b.example''"
  by (simp add: strip_def lstrip.simps rstrip.simps whitespace_def suffix_to_prefix)

lemma strip_c: "strip ''https://c.example'' = ''https://c.example''"
  by (simp add: strip_def lstrip.simps rstrip.simps whitespace_def suffix_to_prefix)

lemma strip_blank:
  "strip [CHR 0xC2, CHR 0xA0] = [] \<and> strip ''  '' = []
   \<and> strip ([CHR 0xC2, CHR 0xA0] @ '' https://a.example '' @ [CHR 0xE2, CHR 0x80, CHR 0xA8])
       = ''https://a.example''"
  by (simp add: strip_def lstrip.simps rstrip.simps whitespace_def suffix_to_prefix)

lemma main_blank_urls:
  "main (scenario_config [[CHR 0xC2, CHR 0xA0], ''  '']) http_get now smtp w = Inl (SystemExit 1)"
  by (simp add: main_def valid_urls_def scenario_config_def strip_blank)

lemmas eval_defs = fetch_of_def run_lighthouse_def network_def full_url_def quote_def is_safe_def
  is_lower_def is_upper_def PAGESPEED_API_URL_def scenario_config_def extract_step_def set_score_def
  replace_def valid_urls_def strip_a strip_b strip_c

section \<open>Properties of the history store\<close>

text \<open>
  Claim C4. After every append the history holds at most 52 runs, and the lookup of the
  latest run returns the run just appended; appending a sequence of runs to the empty
  history leaves its last 52 in order, so after 53 appends exactly the first one is gone.
\<close>

theorem history_bounded_fifo:
  "length (h_runs (append_run h r)) \<le> 52
   \<and> previous_run (append_run h r) = Some r
   \<and> h_runs (foldl append_run \<lparr>h_runs = []\<rparr> rs) = drop (length rs - 52) rs
   \<and> (length rs = 53 \<longrightarrow>
        h_runs (foldl append_run \<lparr>h_runs = []\<rparr> rs) = tl rs
        \<and> length (h_runs (foldl append_run \<lparr>h_runs = []\<rparr> rs)) = 52)"
proof -
  have 1: "length (h_runs (append_run h r)) \<le> 52" by (rule append_run_length)
  have 2: "previous_run (append_run h r) = Some r" by (rule append_run_last)
  have 3: "h_runs (foldl append_run \<lparr>h_runs = []\<rparr> rs) = drop (length rs - 52) rs"
    using foldl_append_run [of "\<lparr>h_runs = []\<rparr>" rs] by simp
  have 4: "length rs = 53 \<longrightarrow>
        h_runs (foldl append_run \<lparr>h_runs = []\<rparr> rs) = tl rs
        \<and> length (h_runs (foldl append_run \<lparr>h_runs = []\<rparr> rs)) = 52"
    by (simp add: 3 drop_Suc)
  from 1 2 3 4 show ?thesis by blast
qed

theorem history_bounded_fifo_witness:
  "length (map (\<lambda>n. \<lparr>r_date = str_nat n, r_results = []\<rparr>) [0..<53]) = 53
   \<and> h_runs (foldl append_run \<lparr>h_runs = []\<rparr> (map (\<lambda>n. \<lparr>r_date = str_nat n, r_results = []\<rparr>) [0..<53]))
       = map (\<lambda>n. \<lparr>r_date = str_nat n, r_results = []\<rparr>) [1..<53]"
proof -
  have l: "length (map (\<lambda>n. \<lparr>r_date = str_nat n, r_results = []\<rparr>) [0..<53]) = 53" by simp
  have t: "tl (map (\<lambda>n. \<lparr>r_date = str_nat n, r_results = []\<rparr>) [0..<53])
             = map (\<lambda>n. \<lparr>r_date = str_nat n, r_results = []\<rparr>) [1..<53]"
    by (simp add: map_tl [symmetric] upt_conv_Cons del: upt_Suc)
  from history_bounded_fifo [of "\<lparr>h_runs = []\<rparr>" "\<lparr>r_date = [], r_results = []\<rparr>"
      "map (\<lambda>n. \<lparr>r_date = str_nat n, r_results = []\<rparr>) [0..<53]"] l
  have "h_runs (foldl append_run \<lparr>h_runs = []\<rparr> (map (\<lambda>n. \<lparr>r_date = str_nat n, r_results = []\<rparr>) [0..<53]))
          = tl (map (\<lambda>n. \<lparr>r_date = str_nat n, r_results = []\<rparr>) [0..<53])"
    by blast
  with l t show ?thesis by (simp only:)
qed

text \<open>
  Claim C7, as stated, fails for a file whose contents \<open>json.load\<close> rejects:
  \<open>load_history\<close> has no handler, and the \<open>JSONDecodeError\<close> leaves it.
\<close>

theorem load_history_corrupt_counterexample:
  "load_history \<lparr>history_path = Some Malformed, trace = []\<rparr> = Inl JSONDecodeError"
  by (simp add: load_history_def json_load_def)

text \<open>
  Claim C7, amended. Loading the history when the file is missing yields the empty
  history; a file that holds a history yields that history; a file whose contents are not
  well-formed JSON makes the load raise \<open>JSONDecodeError\<close>.
\<close>

theorem load_history_cases:
  "load_history (w\<lparr>history_path := None\<rparr>) = Inr \<lparr>h_runs = []\<rparr>
   \<and> load_history (w\<lparr>history_path := Some (Document h)\<rparr>) = Inr h
   \<and> load_history (w\<lparr>history_path := Some Malformed\<rparr>) = Inl JSONDecodeError"
  by (simp add: load_history_def json_load_def)

section \<open>Properties of a run\<close>

text \<open>
  Claim C6, as stated, fails: a run whose only fetch fails appends a run without results
  to a history of one run, and persists the two.
\<close>

theorem all_fetches_fail_counterexample:
  "main (scenario_config [''https://a.example'']) (network []) ''2026-11-03T09:00:00'' smtp_delivers
     \<lparr>history_path = Some (Document \<lparr>h_runs = [\<lparr>r_date = ''2026-10-27T09:00:00'',
          r_results = [\<lparr>s_url = ''https://a.example'', s_scores = [(''performance'', 90)]\<rparr>]\<rparr>]\<rparr>),
       trace = []\<rparr>
   = Inr \<lparr>history_path = Some (Document \<lparr>h_runs = [\<lparr>r_date = ''2026-10-27T09:00:00'',
          r_results = [\<lparr>s_url = ''https://a.example'', s_scores = [(''performance'', 90)]\<rparr>]\<rparr>,
          \<lparr>r_date = ''2026-11-03T09:00:00'', r_results = []\<rparr>]\<rparr>),
       trace = [Save_history \<lparr>h_runs = [\<lparr>r_date = ''2026-10-27T09:00:00'',
          r_results = [\<lparr>s_url = ''https://a.example'', s_scores = [(''performance'', 90)]\<rparr>]\<rparr>,
          \<lparr>r_date = ''2026-11-03T09:00:00'', r_results = []\<rparr>]\<rparr>]\<rparr>"
  by (simp add: main_def eval_defs load_history_def json_load_def save_history_def append_run_def
      new_run_def Let_def)

text \<open>
  Claim C6, amended. A batch in which every URL's fetch fails completes without raising
  when the history loads; its append stage appends a run with the run date and no Score
  Record, which becomes the latest run of the persisted history, and no notification is
  attempted.
\<close>

theorem all_fetches_fail:
  assumes "valid_urls config \<noteq> []"
    and "load_history w = Inr h"
    and "\<forall>u \<in> set (valid_urls config). fetch_of config http_get u = Inr None"
  shows "main config http_get now smtp w
           = Inr (w\<lparr>history_path := Some (Document (append_run h \<lparr>r_date = now, r_results = []\<rparr>)),
                    trace := trace w @ [Save_history (append_run h \<lparr>r_date = now, r_results = []\<rparr>)]\<rparr>)
         \<and> previous_run (append_run h \<lparr>r_date = now, r_results = []\<rparr>)
             = Some \<lparr>r_date = now, r_results = []\<rparr>"
proof -
  have none: "audit_entry http_get config ps u = None" if "u \<in> set (valid_urls config)" for u ps
    using assms(3) that by (simp add: audit_entry_None)
  have mf: "List.map_filter (audit_entry http_get config ps) urls = []" if "set urls \<subseteq> set (valid_urls config)" for urls ps
    using that by (induction urls) (simp_all add: List.map_filter_simps none)
  from assms(3) have "\<forall>u \<in> set (valid_urls config). \<exists>r. fetch_of config http_get u = Inr r" by simp
  from run_audits_result [OF this, of "previous_scores_of h" "[]" False]
  have "run_audits http_get config (previous_scores_of h) [] False (valid_urls config) = Inr ([], False)"
    by (simp add: mf)
  from main_eq [OF assms(1) assms(2) this, of now smtp]
  show ?thesis
    by (simp add: new_run_def save_history_def append_run_last)
qed

theorem all_fetches_fail_witness:
  "valid_urls (scenario_config [''https://a.example'', ''https://b.example''])
     = [''https://a.example'', ''https://b.example'']
   \<and> load_history \<lparr>history_path = None, trace = []\<rparr> = Inr \<lparr>h_runs = []\<rparr>
   \<and> fetch_of (scenario_config [''https://a.example'', ''https://b.example'']) (network [])
        ''https://a.example'' = Inr None
   \<and> fetch_of (scenario_config [''https://a.example'', ''https://b.example'']) (network [])
        ''https://b.example'' = Inr None
   \<and> main (scenario_config [''https://a.example'', ''https://b.example'']) (network [])
         ''2026-11-03T09:00:00'' smtp_delivers \<lparr>history_path = None, trace = []\<rparr>
       = Inr \<lparr>history_path = Some (Document \<lparr>h_runs = [\<lparr>r_date = ''2026-11-03T09:00:00'', r_results = []\<rparr>]\<rparr>),
              trace = [Save_history \<lparr>h_runs = [\<lparr>r_date = ''2026-11-03T09:00:00'', r_results = []\<rparr>]\<rparr>]\<rparr>"
proof -
  have v: "valid_urls (scenario_config [''https://a.example'', ''https://b.example''])
     = [''https://a.example'', ''https://b.example'']"
    by (simp add: eval_defs)
  then have a: "valid_urls (scenario_config [''https://a.example'', ''https://b.example'']) \<noteq> []"
    by simp
  have b: "load_history \<lparr>history_path = None, trace = []\<rparr> = Inr \<lparr>h_runs = []\<rparr>"
    by (simp add: load_history_def)
  have fa: "fetch_of (scenario_config [''https://a.example'', ''https://b.example'']) (network [])
        ''https://a.example'' = Inr None"
    by (simp add: eval_defs)
  have fb: "fetch_of (scenario_config [''https://a.example'', ''https://b.example'']) (network [])
        ''https://b.example'' = Inr None"
    by (simp add: eval_defs)
  from fa fb have c: "\<forall>u \<in> set (valid_urls (scenario_config [''https://a.example'', ''https://b.example''])).
         fetch_of (scenario_config [''https://a.example'', ''https://b.example'']) (network []) u = Inr None"
    by (simp add: v)
  from all_fetches_fail [OF a b c, of "''2026-11-03T09:00:00''" smtp_delivers]
  have "main (scenario_config [''https://a.example'', ''https://b.example'']) (network [])
         ''2026-11-03T09:00:00'' smtp_delivers \<lparr>history_path = None, trace = []\<rparr>
       = Inr \<lparr>history_path = Some (Document \<lparr>h_runs = [\<lparr>r_date = ''2026-11-03T09:00:00'', r_results = []\<rparr>]\<rparr>),
              trace = [Save_history \<lparr>h_runs = [\<lparr>r_date = ''2026-11-03T09:00:00'', r_results = []\<rparr>]\<rparr>]\<rparr>"
    by (simp add: append_run_def Let_def)
  with v b fa fb show ?thesis by blast
qed

text \<open>
  Claim C5, as stated, fails in its instance: of three URLs, the fetch of the first fails,
  the fetch of the second succeeds with an empty Score Record, which \<open>if scores:\<close>
  skips as well, and the run holds one Score Record, not two.
\<close>

theorem failed_fetch_counterexample:
  "fetch_of (scenario_config [''https://a.example'', ''https://b.example'', ''https://c.example''])
     (network [(full_url ''https://b.example'' [] [''performance'', ''seo''], Json Map.empty),
               (full_url ''https://c.example'' [] [''performance'', ''seo''],
                Json [''performance'' \<mapsto> Some 90])])
     ''https://a.example'' = Inr None
   \<and> fetch_of (scenario_config [''https://a.example'', ''https://b.example'', ''https://c.example''])
     (network [(full_url ''https://b.example'' [] [''performance'', ''seo''], Json Map.empty),
               (full_url ''https://c.example'' [] [''performance'', ''seo''],
                Json [''performance'' \<mapsto> Some 90])])
     ''https://b.example'' = Inr (Some [])
   \<and> fetch_of (scenario_config [''https://a.example'', ''https://b.example'', ''https://c.example''])
     (network [(full_url ''https://b.example'' [] [''performance'', ''seo''], Json Map.empty),
               (full_url ''https://c.example'' [] [''performance'', ''seo''],
                Json [''performance'' \<mapsto> Some 90])])
     ''https://c.example'' = Inr (Some [(''performance'', 90)])
   \<and> (case main (scenario_config [''https://a.example'', ''https://b.example'', ''https://c.example''])
          (network [(full_url ''https://b.example'' [] [''performance'', ''seo''], Json Map.empty),
               (full_url ''https://c.example'' [] [''performance'', ''seo''],
                Json [''performance'' \<mapsto> Some 90])])
          ''2026-11-03T09:00:00'' smtp_delivers \<lparr>history_path = None, trace = []\<rparr>
        of Inl e \<Rightarrow> None | Inr w' \<Rightarrow> history_path w')
       = Some (Document \<lparr>h_runs = [\<lparr>r_date = ''2026-11-03T09:00:00'',
            r_results = [\<lparr>s_url = ''https://c.example'', s_scores = [(''performance'', 90)]\<rparr>]\<rparr>]\<rparr>)"
  by (simp add: main_def eval_defs load_history_def save_history_def append_run_def new_run_def
      Let_def send_email_def previous_scores_of_def previous_run_def compare_scores_def)

lemma audit_entry_Some_iff:
  "audit_entry http_get config ps u \<noteq> None \<longleftrightarrow>
     (case fetch_of config http_get u of Inr (Some s) \<Rightarrow> s \<noteq> [] | _ \<Rightarrow> False)"
  by (auto simp: audit_entry_def Let_def split: sum.splits option.splits)

lemma audit_entry_scores:
  "audit_entry http_get config ps u = Some e \<Longrightarrow>
     fetch_of config http_get u = Inr (Some (e_scores e)) \<and> e_scores e \<noteq> [] \<and> e_url e = u"
  by (auto simp: audit_entry_def Let_def split: sum.splits option.splits if_splits)

lemma map_filter_member:
  "e \<in> set (List.map_filter f xs) \<longleftrightarrow> (\<exists>x \<in> set xs. f x = Some e)"
  by (induction xs) (auto simp: List.map_filter_simps split: option.splits)

lemma new_run_urls: "map s_url (r_results (new_run now cr)) = map e_url cr"
  by (simp add: new_run_def comp_def)

text \<open>
  Claim C5, amended. When the history loads and no fetch raises an exception that
  \<open>run_lighthouse\<close> does not catch, the run completes; the batch results and the run
  appended to the history hold, in order, exactly the URLs whose fetch returned a
  non-empty Score Record, each with the record fetched; a URL whose fetch fails has no
  entry in the batch results (so no Change) and no Score Record in the run, and the
  batch gives what it gives without that URL; a batch of 3 URLs with 1 failed fetch and
  no empty Score Record yields a run of exactly 2 Score Records.
\<close>

theorem failed_fetch_skipped:
  assumes "valid_urls config \<noteq> []"
    and "load_history w = Inr h"
    and "\<forall>u \<in> set (valid_urls config). \<exists>r. fetch_of config http_get u = Inr r"
  shows "\<exists>cr hc w'.
           run_audits http_get config (previous_scores_of h) [] False (valid_urls config) = Inr (cr, hc)
         \<and> main config http_get now smtp w = Inr w'
         \<and> history_path w' = Some (Document (append_run h (new_run now cr)))
         \<and> previous_run (append_run h (new_run now cr)) = Some (new_run now cr)
         \<and> map s_url (r_results (new_run now cr)) = map e_url cr
         \<and> map e_url cr =
             filter (\<lambda>u. case fetch_of config http_get u of Inr (Some s) \<Rightarrow> s \<noteq> [] | _ \<Rightarrow> False)
               (valid_urls config)
         \<and> (\<forall>e \<in> set cr. fetch_of config http_get (e_url e) = Inr (Some (e_scores e)))
         \<and> (\<forall>u. fetch_of config http_get u = Inr None \<longrightarrow>
               u \<notin> e_url ` set cr \<and> u \<notin> s_url ` set (r_results (new_run now cr))
               \<and> run_audits http_get config (previous_scores_of h) [] False
                    (removeAll u (valid_urls config)) = Inr (cr, hc))
         \<and> (length (valid_urls config) = 3
              \<and> length (filter (\<lambda>u. fetch_of config http_get u = Inr None) (valid_urls config)) = 1
              \<and> (\<forall>u \<in> set (valid_urls config). fetch_of config http_get u \<noteq> Inr (Some []))
             \<longrightarrow> length (r_results (new_run now cr)) = 2)"
proof -
  define ps where "ps = previous_scores_of h"
  define urls where "urls = valid_urls config"
  define cr where "cr = List.map_filter (audit_entry http_get config ps) urls"
  define hc where "hc = (\<exists>e \<in> set cr. e_changes e \<noteq> [])"
  define ok where "ok = (\<lambda>u. case fetch_of config http_get u of Inr (Some s) \<Rightarrow> s \<noteq> [] | _ \<Rightarrow> False)"
  have noraise: "\<forall>u \<in> set urls. \<exists>r. fetch_of config http_get u = Inr r"
    using assms(3) by (simp add: urls_def)
  have ra: "run_audits http_get config ps [] False urls = Inr (cr, hc)"
    using run_audits_result [OF noraise, of ps "[]" False] by (simp add: cr_def hc_def)
  have m: "main config http_get now smtp w =
     (let w1 = save_history (append_run h (new_run now cr)) w in
      if cr \<noteq> [] then
        Inr (w1\<lparr>trace := trace w1 @ [Send_email
               (if hc then sym_alert @ '' Lighthouse Alert: Score Changes Detected''
                else sym_check @ '' Lighthouse Report: No Significant Changes'')
               (format_email_html cr now) (format_email_text cr now)]\<rparr>)
      else Inr w1)"
    using main_eq [OF assms(1) assms(2), of http_get cr hc now smtp] ra
    by (simp add: ps_def urls_def)
  then obtain w' where w': "main config http_get now smtp w = Inr w'"
    and hp: "history_path w' = Some (Document (append_run h (new_run now cr)))"
    by (cases "cr = []") (simp_all add: Let_def save_history_def)
  have urls_cr: "map e_url cr = filter ok urls"
    unfolding cr_def ok_def map_filter_urls by (simp only: audit_entry_Some_iff)
  have scores: "\<forall>e \<in> set cr. fetch_of config http_get (e_url e) = Inr (Some (e_scores e))"
    unfolding cr_def by (auto simp: map_filter_member dest: audit_entry_scores)
  have skip: "u \<notin> e_url ` set cr \<and> u \<notin> s_url ` set (r_results (new_run now cr))
               \<and> run_audits http_get config ps [] False (removeAll u urls) = Inr (cr, hc)"
    if f: "fetch_of config http_get u = Inr None" for u
  proof -
    have "\<not> ok u" using f by (simp add: ok_def)
    then have "u \<notin> set (map e_url cr)" by (simp add: urls_cr)
    moreover have "set (map s_url (r_results (new_run now cr))) = set (map e_url cr)"
      by (simp only: new_run_urls)
    moreover have "run_audits http_get config ps [] False (removeAll u urls) = Inr (cr, hc)"
      using run_audits_remove [of config http_get u ps "[]" False urls] f ra by simp
    ultimately show ?thesis by simp
  qed
  have three: "length (r_results (new_run now cr)) = 2"
    if l: "length urls = 3"
      and one: "length (filter (\<lambda>u. fetch_of config http_get u = Inr None) urls) = 1"
      and ne: "\<forall>u \<in> set urls. fetch_of config http_get u \<noteq> Inr (Some [])"
  proof -
    have "filter (\<lambda>u. \<not> ok u) urls = filter (\<lambda>u. fetch_of config http_get u = Inr None) urls"
    proof (rule filter_cong [OF refl])
      fix u assume "u \<in> set urls"
      with noraise ne obtain r where r: "fetch_of config http_get u = Inr r" and "r \<noteq> Some []"
        by auto
      then show "(\<not> ok u) = (fetch_of config http_get u = Inr None)"
        by (cases r) (auto simp: ok_def)
    qed
    with one have "length (filter (\<lambda>u. \<not> ok u) urls) = 1" by simp
    with sum_length_filter_compl [of ok urls] l have "length (filter ok urls) = 2" by simp
    then have "length (map e_url cr) = 2" by (simp only: urls_cr)
    then show ?thesis by (simp add: new_run_def)
  qed
  show ?thesis
    apply (rule exI [of _ cr], rule exI [of _ hc], rule exI [of _ w'])
    using ra w' hp append_run_last [of h "new_run now cr"] new_run_urls [of now cr] urls_cr scores skip three
    unfolding ps_def urls_def ok_def
    by blast
qed

theorem failed_fetch_skipped_witness:
  "valid_urls (scenario_config [''https://a.example'', ''https://b.example'', ''https://c.example''])
     = [''https://a.example'', ''https://b.example'', ''https://c.example'']
   \<and> load_history \<lparr>history_path = None, trace = []\<rparr> = Inr \<lparr>h_runs = []\<rparr>
   \<and> fetch_of (scenario_config [''https://a.example'', ''https://b.example'', ''https://c.example''])
        (network [(full_url ''https://b.example'' [] [''performance'', ''seo''],
                   Json [''performance'' \<mapsto> Some 90, ''seo'' \<mapsto> Some 80]),
                  (full_url ''https://c.example'' [] [''performance'', ''seo''],
                   Json [''performance'' \<mapsto> Some 70])])
        ''https://a.example'' = Inr None
   \<and> fetch_of (scenario_config [''https://a.example'', ''https://b.example'', ''https://c.example''])
        (network [(full_url ''https://b.example'' [] [''performance'', ''seo''],
                   Json [''performance'' \<mapsto> Some 90, ''seo'' \<mapsto> Some 80]),
                  (full_url ''https://c.example'' [] [''performance'', ''seo''],
                   Json [''performance'' \<mapsto> Some 70])])
        ''https://b.example'' = Inr (Some [(''performance'', 90), (''seo'', 80)])
   \<and> fetch_of (scenario_config [''https://a.example'', ''https://b.example'', ''https://c.example''])
        (network [(full_url ''https://b.example'' [] [''performance'', ''seo''],
                   Json [''performance'' \<mapsto> Some 90, ''seo'' \<mapsto> Some 80]),
                  (full_url ''https://c.example'' [] [''performance'', ''seo''],
                   Json [''performance'' \<mapsto> Some 70])])
        ''https://c.example'' = Inr (Some [(''performance'', 70)])
   \<and> (\<exists>cr w'.
         main (scenario_config [''https://a.example'', ''https://b.example'', ''https://c.example''])
           (network [(full_url ''https://b.example'' [] [''performance'', ''seo''],
                      Json [''performance'' \<mapsto> Some 90, ''seo'' \<mapsto> Some 80]),
                     (full_url ''https://c.example'' [] [''performance'', ''seo''],
                      Json [''performance'' \<mapsto> Some 70])])
           ''2026-11-03T09:00:00'' smtp_delivers \<lparr>history_path = None, trace = []\<rparr> = Inr w'
         \<and> history_path w' = Some (Document (append_run \<lparr>h_runs = []\<rparr> (new_run ''2026-11-03T09:00:00'' cr)))
         \<and> map e_url cr = [''https://b.example'', ''https://c.example'']
         \<and> length (r_results (new_run ''2026-11-03T09:00:00'' cr)) = 2)"
proof -
  define cfg where "cfg = scenario_config [''https://a.example'', ''https://b.example'', ''https://c.example'']"
  define net where "net = network [(full_url ''https://b.example'' [] [''performance'', ''seo''],
                   Json [''performance'' \<mapsto> Some 90, ''seo'' \<mapsto> Some 80]),
                  (full_url ''https://c.example'' [] [''performance'', ''seo''],
                   Json [''performance'' \<mapsto> Some 70])]"
  have v: "valid_urls cfg = [''https://a.example'', ''https://b.example'', ''https://c.example'']"
    by (simp add: cfg_def eval_defs)
  have l: "load_history \<lparr>history_path = None, trace = []\<rparr> = Inr \<lparr>h_runs = []\<rparr>"
    by (simp add: load_history_def)
  have fa: "fetch_of cfg net ''https://a.example'' = Inr None"
    by (simp add: cfg_def net_def eval_defs)
  have fb: "fetch_of cfg net ''https://b.example'' = Inr (Some [(''performance'', 90), (''seo'', 80)])"
    by (simp add: cfg_def net_def eval_defs)
  have fc: "fetch_of cfg net ''https://c.example'' = Inr (Some [(''performance'', 70)])"
    by (simp add: cfg_def net_def eval_defs)
  have ne: "valid_urls cfg \<noteq> []" by (simp add: v)
  have nr: "\<forall>u \<in> set (valid_urls cfg). \<exists>r. fetch_of cfg net u = Inr r"
    by (simp add: v fa fb fc)
  have three: "length (valid_urls cfg) = 3
      \<and> length (filter (\<lambda>u. fetch_of cfg net u = Inr None) (valid_urls cfg)) = 1
      \<and> (\<forall>u \<in> set (valid_urls cfg). fetch_of cfg net u \<noteq> Inr (Some []))"
    by (simp add: v fa fb fc)
  have flt: "filter (\<lambda>u. case fetch_of cfg net u of Inr (Some s) \<Rightarrow> s \<noteq> [] | _ \<Rightarrow> False) (valid_urls cfg)
      = [''https://b.example'', ''https://c.example'']"
    by (simp add: v fa fb fc)
  from failed_fetch_skipped [OF ne l nr, of "''2026-11-03T09:00:00''" smtp_delivers] three flt
  have "\<exists>cr w'. main cfg net ''2026-11-03T09:00:00'' smtp_delivers \<lparr>history_path = None, trace = []\<rparr> = Inr w'
         \<and> history_path w' = Some (Document (append_run \<lparr>h_runs = []\<rparr> (new_run ''2026-11-03T09:00:00'' cr)))
         \<and> map e_url cr = [''https://b.example'', ''https://c.example'']
         \<and> length (r_results (new_run ''2026-11-03T09:00:00'' cr)) = 2"
    by metis
  with v l fa fb fc show ?thesis unfolding cfg_def net_def by blast
qed

lemma snd_send_email:
  "snd (send_email smtp config subject html_body text_body w)
     = w\<lparr>trace := trace w @ [Send_email subject html_body text_body]\<rparr>"
  by (simp add: send_email_def Let_def)

lemma main_smtp_irrelevant:
  "main config http_get now smtp' w = main config http_get now smtp w"
  by (simp add: main_def Let_def snd_send_email split: sum.splits prod.splits)

lemma main_InrD:
  assumes "main config http_get now smtp w = Inr w'"
  shows "\<exists>h cr hc. valid_urls config \<noteq> [] \<and> load_history w = Inr h
           \<and> run_audits http_get config (previous_scores_of h) [] False (valid_urls config) = Inr (cr, hc)"
  using assms
  by (auto simp: main_def Let_def split: if_splits sum.splits prod.splits)

lemma main_trace:
  assumes "main config http_get now smtp w = Inr w'"
  shows "\<exists>h' rest. history_path w' = Some (Document h')
           \<and> trace w' = trace w @ Save_history h' # rest
           \<and> (rest = [] \<or> (\<exists>subject html_body text_body. rest = [Send_email subject html_body text_body]))"
proof -
  from main_InrD [OF assms] obtain h cr hc where v: "valid_urls config \<noteq> []"
    and l: "load_history w = Inr h"
    and ra: "run_audits http_get config (previous_scores_of h) [] False (valid_urls config) = Inr (cr, hc)"
    by blast
  from main_eq [OF v l ra, of now smtp] assms show ?thesis
    by (cases "cr = []") (auto simp: Let_def save_history_def)
qed

text \<open>
  Claim C8. The result of a run, the persisted history and the order of its effects
  included, is the same whatever the SMTP server does, and a failed delivery raises
  nothing; every run that completes has saved the history before any call of
  \<open>send_email\<close>; a run in which some fetch returned a non-empty Score Record saves the
  history with the new run as its latest one, and only then calls \<open>send_email\<close>.
\<close>

theorem persisted_before_notification:
  "(\<forall>smtp'. main config http_get now smtp' w = main config http_get now smtp w)
   \<and> (\<forall>w'. main config http_get now smtp w = Inr w' \<longrightarrow>
          (\<exists>h' rest. history_path w' = Some (Document h')
             \<and> trace w' = trace w @ Save_history h' # rest
             \<and> (rest = [] \<or> (\<exists>subject html_body text_body.
                                rest = [Send_email subject html_body text_body]))))
   \<and> (valid_urls config \<noteq> [] \<and> load_history w = Inr h
        \<and> (\<forall>u \<in> set (valid_urls config). \<exists>r. fetch_of config http_get u = Inr r)
        \<and> (\<exists>u \<in> set (valid_urls config). \<exists>s. fetch_of config http_get u = Inr (Some s) \<and> s \<noteq> [])
      \<longrightarrow> (\<exists>cr hc subject html_body text_body.
             run_audits http_get config (previous_scores_of h) [] False (valid_urls config) = Inr (cr, hc)
           \<and> cr \<noteq> []
           \<and> main config http_get now smtp w =
               Inr (w\<lparr>history_path := Some (Document (append_run h (new_run now cr))),
                      trace := trace w @ [Save_history (append_run h (new_run now cr)),
                                          Send_email subject html_body text_body]\<rparr>)
           \<and> previous_run (append_run h (new_run now cr)) = Some (new_run now cr)))"
proof -
  have 1: "\<forall>smtp'. main config http_get now smtp' w = main config http_get now smtp w"
    by (simp add: main_smtp_irrelevant)
  have 2: "\<exists>cr hc subject html_body text_body.
             run_audits http_get config (previous_scores_of h) [] False (valid_urls config) = Inr (cr, hc)
           \<and> cr \<noteq> []
           \<and> main config http_get now smtp w =
               Inr (w\<lparr>history_path := Some (Document (append_run h (new_run now cr))),
                      trace := trace w @ [Save_history (append_run h (new_run now cr)),
                                          Send_email subject html_body text_body]\<rparr>)
           \<and> previous_run (append_run h (new_run now cr)) = Some (new_run now cr)"
    if v: "valid_urls config \<noteq> []" and l: "load_history w = Inr h"
      and nr: "\<forall>u \<in> set (valid_urls config). \<exists>r. fetch_of config http_get u = Inr r"
      and ex: "\<exists>u \<in> set (valid_urls config). \<exists>s. fetch_of config http_get u = Inr (Some s) \<and> s \<noteq> []"
  proof -
    define ps where "ps = previous_scores_of h"
    define cr where "cr = List.map_filter (audit_entry http_get config ps) (valid_urls config)"
    define hc where "hc = (\<exists>e \<in> set cr. e_changes e \<noteq> [])"
    have ra: "run_audits http_get config ps [] False (valid_urls config) = Inr (cr, hc)"
      using run_audits_result [OF nr, of ps "[]" False] by (simp add: cr_def hc_def)
    from ex obtain u s where u: "u \<in> set (valid_urls config)"
      and f: "fetch_of config http_get u = Inr (Some s)" and s: "s \<noteq> []" by blast
    from f s have "audit_entry http_get config ps u \<noteq> None"
      unfolding audit_entry_Some_iff by simp
    then obtain e where "audit_entry http_get config ps u = Some e" by blast
    with u have "e \<in> set cr" by (auto simp: cr_def map_filter_member)
    then have ne: "cr \<noteq> []" by auto
    from main_eq [OF v l, of http_get cr hc now smtp] ra ne
    have "main config http_get now smtp w =
               Inr (w\<lparr>history_path := Some (Document (append_run h (new_run now cr))),
                      trace := trace w @ [Save_history (append_run h (new_run now cr)),
                        Send_email (if hc then sym_alert @ '' Lighthouse Alert: Score Changes Detected''
                           else sym_check @ '' Lighthouse Report: No Significant Changes'')
                          (format_email_html cr now) (format_email_text cr now)]\<rparr>)"
      by (simp add: ps_def Let_def save_history_def)
    with ra ne append_run_last [of h "new_run now cr"] show ?thesis
      unfolding ps_def by blast
  qed
  have 3: "\<forall>w'. main config http_get now smtp w = Inr w' \<longrightarrow>
          (\<exists>h' rest. history_path w' = Some (Document h')
             \<and> trace w' = trace w @ Save_history h' # rest
             \<and> (rest = [] \<or> (\<exists>subject html_body text_body.
                                rest = [Send_email subject html_body text_body])))"
    using main_trace by blast
  from 1 3 2 show ?thesis by blast
qed

theorem persisted_before_notification_witness:
  "valid_urls (scenario_config [''https://c.example'']) = [''https://c.example'']
   \<and> load_history \<lparr>history_path = None, trace = []\<rparr> = Inr \<lparr>h_runs = []\<rparr>
   \<and> fetch_of (scenario_config [''https://c.example''])
        (network [(full_url ''https://c.example'' [] [''performance'', ''seo''],
                   Json [''performance'' \<mapsto> Some 70])])
        ''https://c.example'' = Inr (Some [(''performance'', 70)])
   \<and> main (scenario_config [''https://c.example''])
        (network [(full_url ''https://c.example'' [] [''performance'', ''seo''],
                   Json [''performance'' \<mapsto> Some 70])])
        ''2026-11-03T09:00:00'' smtp_delivers \<lparr>history_path = None, trace = []\<rparr>
     = main (scenario_config [''https://c.example''])
        (network [(full_url ''https://c.example'' [] [''performance'', ''seo''],
                   Json [''performance'' \<mapsto> Some 70])])
        ''2026-11-03T09:00:00'' smtp_fails \<lparr>history_path = None, trace = []\<rparr>
   \<and> (\<exists>cr subject html_body text_body.
        main (scenario_config [''https://c.example''])
          (network [(full_url ''https://c.example'' [] [''performance'', ''seo''],
                     Json [''performance'' \<mapsto> Some 70])])
          ''2026-11-03T09:00:00'' smtp_fails \<lparr>history_path = None, trace = []\<rparr>
        = Inr \<lparr>history_path = Some (Document (append_run \<lparr>h_runs = []\<rparr> (new_run ''2026-11-03T09:00:00'' cr))),
               trace = [Save_history (append_run \<lparr>h_runs = []\<rparr> (new_run ''2026-11-03T09:00:00'' cr)),
                        Send_email subject html_body text_body]\<rparr>)"
proof -
  define cfg where "cfg = scenario_config [''https://c.example'']"
  define net where "net = network [(full_url ''https://c.example'' [] [''performance'', ''seo''],
                   Json [''performance'' \<mapsto> Some 70])]"
  define w0 where "w0 = \<lparr>history_path = None, trace = []\<rparr>"
  have v: "valid_urls cfg = [''https://c.example'']"
    by (simp add: cfg_def eval_defs)
  have l: "load_history w0 = Inr \<lparr>h_runs = []\<rparr>"
    by (simp add: load_history_def w0_def)
  have fc: "fetch_of cfg net ''https://c.example'' = Inr (Some [(''performance'', 70)])"
    by (simp add: cfg_def net_def eval_defs)
  have hyp: "valid_urls cfg \<noteq> [] \<and> load_history w0 = Inr \<lparr>h_runs = []\<rparr>
        \<and> (\<forall>u \<in> set (valid_urls cfg). \<exists>r. fetch_of cfg net u = Inr r)
        \<and> (\<exists>u \<in> set (valid_urls cfg). \<exists>s. fetch_of cfg net u = Inr (Some s) \<and> s \<noteq> [])"
    by (simp add: v l fc)
  note inst = persisted_before_notification [where config = cfg and http_get = net
      and now = "''2026-11-03T09:00:00''" and smtp = smtp_fails and w = w0 and h = "\<lparr>h_runs = []\<rparr>"]
  from inst have eq: "main cfg net ''2026-11-03T09:00:00'' smtp_delivers w0
      = main cfg net ''2026-11-03T09:00:00'' smtp_fails w0"
    by blast
  from inst hyp have "\<exists>cr subject html_body text_body.
        main cfg net ''2026-11-03T09:00:00'' smtp_fails w0
        = Inr (w0\<lparr>history_path := Some (Document (append_run \<lparr>h_runs = []\<rparr> (new_run ''2026-11-03T09:00:00'' cr))),
               trace := trace w0 @ [Save_history (append_run \<lparr>h_runs = []\<rparr> (new_run ''2026-11-03T09:00:00'' cr)),
                        Send_email subject html_body text_body]\<rparr>)"
    by blast
  then have "\<exists>cr subject html_body text_body.
        main cfg net ''2026-11-03T09:00:00'' smtp_fails w0
        = Inr \<lparr>history_path = Some (Document (append_run \<lparr>h_runs = []\<rparr> (new_run ''2026-11-03T09:00:00'' cr))),
               trace = [Save_history (append_run \<lparr>h_runs = []\<rparr> (new_run ''2026-11-03T09:00:00'' cr)),
                        Send_email subject html_body text_body]\<rparr>"
    by (simp add: w0_def)
  with v l fc eq show ?thesis unfolding cfg_def net_def w0_def by blast
qed

lemma extract_scores_none:
  "\<forall>cat \<in> set categories. categories_data cat = None
       \<and> categories_data (replace CHR ''-'' [] cat) = None \<Longrightarrow>
   extract_scores categories_data scores categories = Inr scores"
  by (induction categories) (auto simp: extract_step_def)

lemma main_cong_networks:
  assumes "run_audits net1 config (previous_scores_of h) [] False (valid_urls config)
             = run_audits net2 config (previous_scores_of h) [] False (valid_urls config)"
    and "load_history w = Inr h"
  shows "main config net1 now smtp w = main config net2 now smtp w"
  using assms by (simp add: main_def Let_def)

text \<open>
  Claim C10. A run over a network that answers some URLs with an empty Score Record
  equals, in all its effects, the run over a network on which these fetches fail: such
  a URL has no entry in the batch results and the batch gives what it gives without it.
  The fetch yields the empty Score Record when the response holds none of the requested
  categories, with or without their hyphens.
\<close>

theorem empty_record_like_failure:
  assumes "\<forall>u \<in> set (valid_urls config).
             fetch_of config net1 u = fetch_of config net2 u
             \<or> (fetch_of config net1 u = Inr (Some []) \<and> fetch_of config net2 u = Inr None)"
  shows "main config net1 now smtp w = main config net2 now smtp w
         \<and> run_audits net1 config ps cr hc (valid_urls config)
             = run_audits net2 config ps cr hc (valid_urls config)
         \<and> (\<forall>u. fetch_of config net1 u = Inr (Some []) \<longrightarrow>
               audit_entry net1 config ps u = None
               \<and> run_audits net1 config ps cr hc (valid_urls config)
                   = run_audits net1 config ps cr hc (removeAll u (valid_urls config)))
         \<and> (\<forall>url categories_data.
               net1 (full_url url (cfg_api_key config) (cfg_categories config)) = Json categories_data
               \<and> (\<forall>cat \<in> set (cfg_categories config).
                     categories_data cat = None \<and> categories_data (replace CHR ''-'' [] cat) = None)
               \<longrightarrow> fetch_of config net1 url = Inr (Some []))"
proof -
  have ra: "run_audits net1 config ps' cr' hc' (valid_urls config)
             = run_audits net2 config ps' cr' hc' (valid_urls config)" for ps' cr' hc'
    using assms by (rule run_audits_cong_networks)
  have 1: "main config net1 now smtp w = main config net2 now smtp w"
  proof (cases "load_history w")
    case (Inl e)
    then show ?thesis by (simp add: main_def Let_def)
  next
    case (Inr h)
    from ra [of "previous_scores_of h" "[]" False] Inr show ?thesis
      by (rule main_cong_networks)
  qed
  have 3: "audit_entry net1 config ps u = None
               \<and> run_audits net1 config ps cr hc (valid_urls config)
                   = run_audits net1 config ps cr hc (removeAll u (valid_urls config))"
    if "fetch_of config net1 u = Inr (Some [])" for u
    using that run_audits_remove [of config net1 u ps cr hc "valid_urls config"]
    by (simp add: audit_entry_None)
  have 4: "fetch_of config net1 url = Inr (Some [])"
    if "net1 (full_url url (cfg_api_key config) (cfg_categories config)) = Json categories_data"
      and "\<forall>cat \<in> set (cfg_categories config).
                     categories_data cat = None \<and> categories_data (replace CHR ''-'' [] cat) = None"
    for url categories_data
    using that by (simp add: fetch_of_def run_lighthouse_def extract_scores_none)
  from 1 ra [of ps cr hc] 3 4 show ?thesis by blast
qed

theorem empty_record_like_failure_witness:
  "fetch_of (scenario_config [''https://b.example'', ''https://c.example''])
      (network [(full_url ''https://b.example'' [] [''performance'', ''seo''], Json Map.empty),
                (full_url ''https://c.example'' [] [''performance'', ''seo''],
                 Json [''performance'' \<mapsto> Some 70])])
      ''https://b.example'' = Inr (Some [])
   \<and> fetch_of (scenario_config [''https://b.example'', ''https://c.example''])
      (network [(full_url ''https://c.example'' [] [''performance'', ''seo''],
                 Json [''performance'' \<mapsto> Some 70])])
      ''https://b.example'' = Inr None
   \<and> main (scenario_config [''https://b.example'', ''https://c.example''])
      (network [(full_url ''https://b.example'' [] [''performance'', ''seo''], Json Map.empty),
                (full_url ''https://c.example'' [] [''performance'', ''seo''],
                 Json [''performance'' \<mapsto> Some 70])])
      ''2026-11-03T09:00:00'' smtp_delivers \<lparr>history_path = None, trace = []\<rparr>
     = main (scenario_config [''https://b.example'', ''https://c.example''])
      (network [(full_url ''https://c.example'' [] [''performance'', ''seo''],
                 Json [''performance'' \<mapsto> Some 70])])
      ''2026-11-03T09:00:00'' smtp_delivers \<lparr>history_path = None, trace = []\<rparr>"
proof -
  define cfg where "cfg = scenario_config [''https://b.example'', ''https://c.example'']"
  define net1 where "net1 = network [(full_url ''https://b.example'' [] [''performance'', ''seo''], Json Map.empty),
                (full_url ''https://c.example'' [] [''performance'', ''seo''],
                 Json [''performance'' \<mapsto> Some 70])]"
  define net2 where "net2 = network [(full_url ''https://c.example'' [] [''performance'', ''seo''],
                 Json [''performance'' \<mapsto> Some 70])]"
  have v: "valid_urls cfg = [''https://b.example'', ''https://c.example'']"
    by (simp add: cfg_def eval_defs)
  have b1: "fetch_of cfg net1 ''https://b.example'' = Inr (Some [])"
    by (simp add: cfg_def net1_def eval_defs)
  have b2: "fetch_of cfg net2 ''https://b.example'' = Inr None"
    by (simp add: cfg_def net2_def eval_defs)
  have c1: "fetch_of cfg net1 ''https://c.example'' = Inr (Some [(''performance'', 70)])"
    by (simp add: cfg_def net1_def eval_defs)
  have c2: "fetch_of cfg net2 ''https://c.example'' = Inr (Some [(''performance'', 70)])"
    by (simp add: cfg_def net2_def eval_defs)
  have hyp: "\<forall>u \<in> set (valid_urls cfg).
             fetch_of cfg net1 u = fetch_of cfg net2 u
             \<or> (fetch_of cfg net1 u = Inr (Some []) \<and> fetch_of cfg net2 u = Inr None)"
    by (simp add: v b1 b2 c1 c2)
  from empty_record_like_failure [OF hyp, of "''2026-11-03T09:00:00''" smtp_delivers
      "\<lparr>history_path = None, trace = []\<rparr>"]
  have "main cfg net1 ''2026-11-03T09:00:00'' smtp_delivers \<lparr>history_path = None, trace = []\<rparr>
      = main cfg net2 ''2026-11-03T09:00:00'' smtp_delivers \<lparr>history_path = None, trace = []\<rparr>"
    by blast
  with b1 b2 show ?thesis unfolding cfg_def net1_def net2_def by blast
qed

section \<open>Properties of the reports\<close>

lemma sub_l: "sublist x a \<Longrightarrow> sublist x (a @ b)"
  by (metis sublist_append_rightI sublist_order.order.trans)

lemma sub_r: "sublist x b \<Longrightarrow> sublist x (a @ b)"
  by (metis sublist_append_leftI sublist_order.order.trans)

lemma sublist_concat_map: "x \<in> set xs \<Longrightarrow> sublist (f x) (concat (map f xs))"
proof -
  assume "x \<in> set xs"
  then obtain ys zs where "xs = ys @ x # zs" by (auto dest: split_list)
  then show ?thesis by simp
qed

lemma html_row_acc: "html_row previous html item = html @ html_row previous [] item"
  by (cases item) (simp add: html_row_def Let_def)

lemma text_row_acc: "text_row previous text item = text @ text_row previous [] item"
  by (cases item) (simp add: text_row_def Let_def)

lemma foldl_acc:
  assumes "\<And>acc x. f acc x = acc @ f [] x"
  shows "foldl f acc xs = acc @ concat (map (f []) xs)"
proof (induction xs arbitrary: acc)
  case Nil
  show ?case by simp
next
  case (Cons x xs)
  have "foldl f acc (x # xs) = foldl f (f acc x) xs" by simp
  also have "\<dots> = f acc x @ concat (map (f []) xs)" by (rule Cons.IH)
  also have "\<dots> = (acc @ f [] x) @ concat (map (f []) xs)" using assms [of acc x] by simp
  finally show ?case by simp
qed

lemma html_result_eq:
  \<open>html_result html r =
     html @ ''<div class="url-section"><h2>'' @ e_url r @ ''</h2>'' @
     (if e_changes r \<noteq> [] then ''<div class="alert">'' @ sym_warning @ '' Score changes detected!</div>'' else []) @
     html_table_head @
     concat (map (html_row (e_previous r) []) (e_scores r)) @
     ''</table></div>''\<close>
  unfolding html_result_def Let_def foldl_acc [of "html_row (e_previous r)", OF html_row_acc]
  by simp

lemma text_result_eq:
  "text_result text r =
     text @ ''\<newline>'' @ e_url r @ ''\<newline>'' @ replicate (py_len (e_url r)) CHR ''-'' @ ''\<newline>\<newline>'' @
     (if e_changes r \<noteq> [] then sym_warning @ ''  SCORE CHANGES DETECTED!\<newline>\<newline>'' else []) @
     concat (map (text_row (e_previous r) []) (e_scores r)) @
     ''\<newline>''"
  unfolding text_result_def Let_def foldl_acc [of "text_row (e_previous r)", OF text_row_acc]
  by simp

lemma html_result_acc: "html_result html r = html @ html_result [] r"
  unfolding html_result_eq [of html] html_result_eq [of "[]"] by simp

lemma text_result_acc: "text_result text r = text @ text_result [] r"
  unfolding text_result_eq [of "text"] text_result_eq [of "[]"] by simp

lemma format_email_html_eq:
  "format_email_html results run_date =
     html_head run_date @ concat (map (html_result []) results) @ html_tail"
  unfolding format_email_html_def Let_def foldl_acc [of html_result, OF html_result_acc]
  by simp

lemma format_email_text_eq:
  "format_email_text results run_date =
     (''LIGHTHOUSE REPORT\<newline>'' @ replicate 50 CHR ''='' @ ''\<newline>Run Date: '' @ run_date @ ''\<newline>\<newline>'')
     @ concat (map (text_result []) results)"
  unfolding format_email_text_def Let_def foldl_acc [of text_result, OF text_result_acc]
  by simp

lemma change_html_text:
  \<open>change_html score prev_score =
     ''<span class="'' @
     (case prev_score of
        Some p \<Rightarrow> if score - p > 0 then ''improved'' else if score - p < 0 then ''declined'' else ''no-change''
      | None \<Rightarrow> ''no-change'') @
     ''">'' @ change_text score prev_score @ ''</span>''\<close>
  by (simp add: change_html_def change_text_def Let_def split: option.splits)

lemma html_row_eq:
  \<open>html_row previous [] (category, score) =
      ''\<newline>                <tr>\<newline>                    <td>'' @
      title (replace CHR ''-'' '' '' category) @
      ''</td>\<newline>                    <td><span class="score-badge '' @
      badge_class score @ ''">'' @ str_int score @
      ''</span></td>\<newline>                    <td>'' @
      show_prev (map_of previous category) @
      ''</td>\<newline>                    <td>'' @
      change_html score (map_of previous category) @
      ''</td>\<newline>                </tr>\<newline>            ''\<close>
  unfolding html_row_def Let_def prod.case append_Nil ..

lemma text_row_eq:
  "text_row previous [] (category, score) =
      ''  '' @ ljust 20 (title (replace CHR ''-'' '' '' category)) @ '' '' @
      rjust 3 (str_int score) @ '' (was '' @ show_prev (map_of previous category) @ '') '' @
      change_text score (map_of previous category) @ ''\<newline>''"
  unfolding text_row_def Let_def prod.case append_Nil ..

lemma html_result_in_report:
  assumes "r \<in> set results"
  shows "sublist (html_result [] r) (format_email_html results run_date)"
proof -
  have "sublist (html_result [] r) (concat (map (html_result []) results))"
    using assms by (rule sublist_concat_map)
  then show ?thesis
    unfolding format_email_html_eq by (rule sub_l [THEN sub_r])
qed

lemma text_result_in_report:
  assumes "r \<in> set results"
  shows "sublist (text_result [] r) (format_email_text results run_date)"
proof -
  have "sublist (text_result [] r) (concat (map (text_result []) results))"
    using assms by (rule sublist_concat_map)
  then show ?thesis
    unfolding format_email_text_eq by (rule sub_r)
qed

lemma html_row_in_result:
  assumes "item \<in> set (e_scores r)"
  shows "sublist (html_row (e_previous r) [] item) (html_result [] r)"
proof -
  have "sublist (html_row (e_previous r) [] item) (concat (map (html_row (e_previous r) []) (e_scores r)))"
    using assms by (rule sublist_concat_map)
  then show ?thesis
    unfolding html_result_eq [of "[]"]
    by (rule sub_l [THEN sub_r, THEN sub_r, THEN sub_r, THEN sub_r, THEN sub_r, THEN sub_r])
qed

lemma text_result_url: "sublist (e_url r) (text_result [] r)"
  unfolding text_result_eq [of "[]"] by (rule sub_r, rule sublist_appendI)

lemmas sublist_trans = sublist_order.order.trans

lemma split_sep:
  assumes "sep \<notin> set w" and "sublist w (a @ sep # b)"
  shows "sublist w a \<or> sublist w b"
proof -
  from assms(2) consider "sublist w a" | "sublist w (sep # b)"
    | xs1 xs2 where "w = xs1 @ xs2" "suffix xs1 a" "prefix xs2 (sep # b)"
    unfolding sublist_append by blast
  then show ?thesis
  proof cases
    case 1
    then show ?thesis by simp
  next
    case 2
    then have "prefix w (sep # b) \<or> sublist w b" by (simp add: sublist_Cons_right)
    then show ?thesis
    proof
      assume p: "prefix w (sep # b)"
      show ?thesis
      proof (cases w)
        case Nil
        then show ?thesis by simp
      next
        case (Cons c cs)
        with p have "c = sep" by simp
        with Cons assms(1) show ?thesis by simp
      qed
    next
      assume "sublist w b"
      then show ?thesis by simp
    qed
  next
    case 3
    show ?thesis
    proof (cases xs2)
      case Nil
      with 3 have "suffix w a" by simp
      then show ?thesis by (simp add: suffix_imp_sublist)
    next
      case (Cons c cs)
      with 3(3) have "c = sep" by simp
      with Cons 3(1) assms(1) show ?thesis by simp
    qed
  qed
qed

lemma o_free:
  assumes "c \<in> set w" and "c \<notin> set x"
  shows "\<not> sublist w x"
  using assms set_mono_sublist [of w x] by blast

lemma concat_split:
  assumes "sep \<notin> set w" and "w \<noteq> []"
    and "\<forall>x \<in> set xs. \<exists>b. f x = b @ [sep]"
    and "sublist w (concat (map f xs))"
  shows "\<exists>x \<in> set xs. sublist w (f x)"
  using assms(3,4)
proof (induction xs)
  case Nil
  with assms(2) show ?case by simp
next
  case (Cons x xs)
  from Cons.prems(1) obtain b where b: "f x = b @ [sep]" by auto
  from Cons.prems(2) have "sublist w (b @ sep # concat (map f xs))" by (simp add: b)
  from split_sep [OF assms(1) this] show ?case
  proof
    assume "sublist w b"
    then have "sublist w (f x)" unfolding b by (rule sub_l)
    then show ?thesis by simp
  next
    assume "sublist w (concat (map f xs))"
    with Cons.IH Cons.prems(1) show ?thesis by simp
  qed
qed

lemma str_nat_digits: "set (str_nat n) \<subseteq> set ''0123456789''"
proof (induction n rule: str_nat.induct)
  case (1 n)
  have d: "''0123456789'' ! k \<in> set ''0123456789''" if "k < 10" for k
    using that nth_mem [of k "''0123456789''"] by simp
  show ?case
  proof (cases "n < 10")
    case True
    then show ?thesis using d [of n] by (subst str_nat.simps) simp
  next
    case False
    have "n mod 10 < 10" by simp
    with False 1 d [of "n mod 10"] show ?thesis by (subst str_nat.simps) simp
  qed
qed

lemma str_int_o: "CHR ''o'' \<notin> set (str_int i)"
  using str_nat_digits [of "nat i"] str_nat_digits [of "nat (- i)"]
  by (auto simp: str_int_def)

lemma show_prev_o: "CHR ''o'' \<notin> set (show_prev p)"
  by (cases p) (simp_all add: show_prev_def str_int_o)

lemma change_text_o: "CHR ''o'' \<notin> set (change_text score p)"
  by (cases p) (simp_all add: change_text_def Let_def str_int_o sym_up_def sym_down_def sym_dash_def)


lemma text_row_no_tier:
  assumes o: "CHR ''o'' \<in> set w" and sp: "CHR '' '' \<notin> set w"
    and s: "sublist w (text_row previous [] (category, score))"
  shows "sublist w (title (replace CHR ''-'' '' '' category))"
proof -
  define L where "L = title (replace CHR ''-'' '' '' category)"
  define k where "k = 20 - py_len L"
  define R where "R = rjust 3 (str_int score) @ '' (was '' @ show_prev (map_of previous category)
                      @ '') '' @ change_text score (map_of previous category) @ ''\<newline>''"
  have w: "w \<noteq> []" using o by auto
  have R: "CHR ''o'' \<notin> set R"
    by (simp add: R_def rjust_def str_int_o show_prev_o change_text_o)
  have eq: "text_row previous [] (category, score)
              = [] @ CHR '' '' # ([] @ CHR '' '' # ((L @ replicate k CHR '' '') @ CHR '' '' # R))"
    by (simp add: text_row_eq ljust_def L_def k_def R_def)
  from s have "sublist w ([] @ CHR '' '' # ([] @ CHR '' '' # ((L @ replicate k CHR '' '') @ CHR '' '' # R)))"
    by (simp only: eq)
  from split_sep [OF sp this] w
  have "sublist w ([] @ CHR '' '' # ((L @ replicate k CHR '' '') @ CHR '' '' # R))" by simp
  from split_sep [OF sp this] w
  have "sublist w ((L @ replicate k CHR '' '') @ CHR '' '' # R)" by simp
  from split_sep [OF sp this] o_free [OF o R]
  have pad: "sublist w (L @ replicate k CHR '' '')" by simp
  show ?thesis
  proof (cases k)
    case 0
    with pad show ?thesis by (simp add: L_def)
  next
    case (Suc k')
    with pad have "sublist w (L @ CHR '' '' # replicate k' CHR '' '')" by simp
    from split_sep [OF sp this] have "sublist w L \<or> sublist w (replicate k' CHR '' '')" .
    moreover have "\<not> sublist w (replicate k' CHR '' '')"
      using o by (intro o_free [of "CHR ''o''"]) auto
    ultimately show ?thesis by (simp add: L_def)
  qed
qed

lemma text_row_ends: "\<exists>b. text_row previous [] item = b @ [CHR ''\<newline>'']"
proof (cases item)
  case (Pair category score)
  have "text_row previous [] (category, score) =
      (''  '' @ ljust 20 (title (replace CHR ''-'' '' '' category)) @ '' '' @
      rjust 3 (str_int score) @ '' (was '' @ show_prev (map_of previous category) @ '') '' @
      change_text score (map_of previous category)) @ [CHR ''\<newline>'']"
    by (simp add: text_row_eq)
  with Pair show ?thesis by blast
qed

lemma text_rows_no_tier:
  assumes o: "CHR ''o'' \<in> set w" and sp: "CHR '' '' \<notin> set w" and nl: "CHR ''\<newline>'' \<notin> set w"
    and s: "sublist w (concat (map (text_row previous []) scores))"
  shows "\<exists>item \<in> set scores. sublist w (title (replace CHR ''-'' '' '' (fst item)))"
proof -
  have w: "w \<noteq> []" using o by auto
  have "\<forall>item \<in> set scores. \<exists>b. text_row previous [] item = b @ [CHR ''\<newline>'']"
    using text_row_ends by blast
  from concat_split [OF nl w this s]
  obtain item where i: "item \<in> set scores" and r: "sublist w (text_row previous [] item)" by blast
  obtain category score where item: "item = (category, score)" by (cases item)
  from r have "sublist w (title (replace CHR ''-'' '' '' category))"
    unfolding item by (rule text_row_no_tier [OF o sp])
  then have "sublist w (title (replace CHR ''-'' '' '' (fst item)))"
    by (simp add: item)
  with i show ?thesis by (rule bexI [rotated])
qed

lemma text_result_no_tier:
  assumes o: "CHR ''o'' \<in> set w" and sp: "CHR '' '' \<notin> set w" and nl: "CHR ''\<newline>'' \<notin> set w"
    and s: "sublist w (text_result [] r)"
  shows "sublist w (e_url r)
         \<or> (\<exists>item \<in> set (e_scores r). sublist w (title (replace CHR ''-'' '' '' (fst item))))"
proof -
  define rows where "rows = concat (map (text_row (e_previous r) []) (e_scores r))"
  define D where "D = replicate (py_len (e_url r)) CHR ''-''"
  define B where "B = sym_warning @ ''  SCORE CHANGES DETECTED!''"
  have w: "w \<noteq> []" using o by auto
  have D: "\<not> sublist w D"
    using o by (intro o_free [of "CHR ''o''"]) (auto simp: D_def)
  have B: "\<not> sublist w B"
    using o by (intro o_free [of "CHR ''o''"]) (auto simp: B_def sym_warning_def)
  have rows: "sublist w rows \<Longrightarrow> ?thesis"
    unfolding rows_def using text_rows_no_tier [OF o sp nl] by blast
  have tail: "sublist w (rows @ CHR ''\<newline>'' # []) \<Longrightarrow> ?thesis"
    using split_sep [OF nl, of rows "[]"] rows w by auto
  show ?thesis
  proof (cases "e_changes r = []")
    case True
    have eq: "text_result [] r
        = [] @ CHR ''\<newline>'' # (e_url r @ CHR ''\<newline>'' # (D @ CHR ''\<newline>'' # ([] @ CHR ''\<newline>'' #
            (rows @ CHR ''\<newline>'' # []))))"
      by (simp add: text_result_eq [of "[]"] True rows_def D_def)
    from s have "sublist w ([] @ CHR ''\<newline>'' # (e_url r @ CHR ''\<newline>'' # (D @ CHR ''\<newline>'' #
            ([] @ CHR ''\<newline>'' # (rows @ CHR ''\<newline>'' # [])))))"
      by (simp only: eq)
    from split_sep [OF nl this] w
    have "sublist w (e_url r @ CHR ''\<newline>'' # (D @ CHR ''\<newline>'' #
            ([] @ CHR ''\<newline>'' # (rows @ CHR ''\<newline>'' # []))))" by simp
    from split_sep [OF nl this] show ?thesis
    proof
      assume "sublist w (e_url r)"
      then show ?thesis by simp
    next
      assume "sublist w (D @ CHR ''\<newline>'' # ([] @ CHR ''\<newline>'' # (rows @ CHR ''\<newline>'' # [])))"
      from split_sep [OF nl this] D
      have "sublist w ([] @ CHR ''\<newline>'' # (rows @ CHR ''\<newline>'' # []))" by simp
      from split_sep [OF nl this] w have "sublist w (rows @ CHR ''\<newline>'' # [])" by simp
      then show ?thesis by (rule tail)
    qed
  next
    case False
    have eq: "text_result [] r
        = [] @ CHR ''\<newline>'' # (e_url r @ CHR ''\<newline>'' # (D @ CHR ''\<newline>'' # ([] @ CHR ''\<newline>'' #
            (B @ CHR ''\<newline>'' # ([] @ CHR ''\<newline>'' # (rows @ CHR ''\<newline>'' # []))))))"
      by (simp add: text_result_eq [of "[]"] False rows_def D_def B_def)
    from s have "sublist w ([] @ CHR ''\<newline>'' # (e_url r @ CHR ''\<newline>'' # (D @ CHR ''\<newline>'' #
            ([] @ CHR ''\<newline>'' # (B @ CHR ''\<newline>'' # ([] @ CHR ''\<newline>'' #
              (rows @ CHR ''\<newline>'' # [])))))))"
      by (simp only: eq)
    from split_sep [OF nl this] w
    have "sublist w (e_url r @ CHR ''\<newline>'' # (D @ CHR ''\<newline>'' #
            ([] @ CHR ''\<newline>'' # (B @ CHR ''\<newline>'' # ([] @ CHR ''\<newline>'' #
              (rows @ CHR ''\<newline>'' # []))))))" by simp
    from split_sep [OF nl this] show ?thesis
    proof
      assume "sublist w (e_url r)"
      then show ?thesis by simp
    next
      assume "sublist w (D @ CHR ''\<newline>'' # ([] @ CHR ''\<newline>'' # (B @ CHR ''\<newline>'' #
                ([] @ CHR ''\<newline>'' # (rows @ CHR ''\<newline>'' # [])))))"
      from split_sep [OF nl this] D
      have "sublist w ([] @ CHR ''\<newline>'' # (B @ CHR ''\<newline>'' #
                ([] @ CHR ''\<newline>'' # (rows @ CHR ''\<newline>'' # []))))" by simp
      from split_sep [OF nl this] w
      have "sublist w (B @ CHR ''\<newline>'' # ([] @ CHR ''\<newline>'' # (rows @ CHR ''\<newline>'' # [])))"
        by simp
      from split_sep [OF nl this] B
      have "sublist w ([] @ CHR ''\<newline>'' # (rows @ CHR ''\<newline>'' # []))" by simp
      from split_sep [OF nl this] w have "sublist w (rows @ CHR ''\<newline>'' # [])" by simp
      then show ?thesis by (rule tail)
    qed
  qed
qed

lemma text_result_ends: "\<exists>b. text_result [] r = b @ [CHR ''\<newline>'']"
proof -
  have "text_result [] r =
     (''\<newline>'' @ e_url r @ ''\<newline>'' @ replicate (py_len (e_url r)) CHR ''-'' @ ''\<newline>\<newline>'' @
     (if e_changes r \<noteq> [] then sym_warning @ ''  SCORE CHANGES DETECTED!\<newline>\<newline>'' else []) @
     concat (map (text_row (e_previous r) []) (e_scores r))) @ [CHR ''\<newline>'']"
    by (simp add: text_result_eq [of "[]"])
  then show ?thesis by blast
qed

lemma text_report_no_tier:
  assumes o: "CHR ''o'' \<in> set w" and sp: "CHR '' '' \<notin> set w" and nl: "CHR ''\<newline>'' \<notin> set w"
    and s: "sublist w (format_email_text results run_date)"
  shows "sublist w run_date
         \<or> (\<exists>r \<in> set results. sublist w (e_url r)
               \<or> (\<exists>item \<in> set (e_scores r). sublist w (title (replace CHR ''-'' '' '' (fst item)))))"
proof -
  define H where "H = ''LIGHTHOUSE REPORT\<newline>'' @ replicate 50 CHR ''='' @ ''\<newline>Run Date:''"
  define sections where "sections = concat (map (text_result []) results)"
  have w: "w \<noteq> []" using o by auto
  have H: "\<not> sublist w H"
    using o by (intro o_free [of "CHR ''o''"]) (auto simp: H_def)
  have eq: "format_email_text results run_date
      = H @ CHR '' '' # (run_date @ CHR ''\<newline>'' # ([] @ CHR ''\<newline>'' # sections))"
    by (simp add: format_email_text_eq H_def sections_def)
  from s have "sublist w (H @ CHR '' '' # (run_date @ CHR ''\<newline>'' # ([] @ CHR ''\<newline>'' # sections)))"
    by (simp only: eq)
  from split_sep [OF sp this] H
  have "sublist w (run_date @ CHR ''\<newline>'' # ([] @ CHR ''\<newline>'' # sections))" by simp
  from split_sep [OF nl this] show ?thesis
  proof
    assume "sublist w run_date"
    then show ?thesis by simp
  next
    assume "sublist w ([] @ CHR ''\<newline>'' # sections)"
    from split_sep [OF nl this] w have "sublist w (concat (map (text_result []) results))"
      by (simp add: sections_def)
    with concat_split [OF nl w, of results "text_result []"] text_result_ends
    obtain r where "r \<in> set results" and "sublist w (text_result [] r)" by blast
    with text_result_no_tier [OF o sp nl] show ?thesis by blast
  qed
qed


text \<open>
  Claim C9, as stated, fails for the tier: the row of the structured report for a score of
  95 carries the badge class of its tier in the score cell, and the plain report of the
  same batch, given here in full, names no tier.
\<close>

theorem report_tier_counterexample:
  \<open>html_row [] [] (''seo'', 95) =
      ''\<newline>                <tr>\<newline>                    <td>Seo</td>\<newline>'' @
      ''                    <td><span class="score-badge score-good">95</span></td>\<newline>'' @
      ''                    <td>N/A</td>\<newline>'' @
      ''                    <td><span class="no-change">First run</span></td>\<newline>'' @
      ''                </tr>\<newline>            ''
   \<and> sublist (html_row [] [] (''seo'', 95))
       (format_email_html [\<lparr>e_url = ''https://a.example'', e_scores = [(''seo'', 95)],
                            e_previous = [], e_changes = []\<rparr>] ''2026-11-03T09:00:00'')
   \<and> badge_class 95 = ''score-good''
   \<and> spec_tier 95 = ''good''
   \<and> format_email_text [\<lparr>e_url = ''https://a.example'', e_scores = [(''seo'', 95)],
                          e_previous = [], e_changes = []\<rparr>] ''2026-11-03T09:00:00''
       = ''LIGHTHOUSE REPORT\<newline>==================================================\<newline>'' @
         ''Run Date: 2026-11-03T09:00:00\<newline>\<newline>\<newline>'' @
         ''https://a.example\<newline>-----------------\<newline>\<newline>'' @
         ''  Seo                   95 (was N/A) First run\<newline>\<newline>''
   \<and> \<not> sublist ''good''
       (format_email_text [\<lparr>e_url = ''https://a.example'', e_scores = [(''seo'', 95)],
                          e_previous = [], e_changes = []\<rparr>] ''2026-11-03T09:00:00'')\<close>
proof -
  define r0 where "r0 = \<lparr>e_url = ''https://a.example'', e_scores = [(''seo'', 95)],
                          e_previous = [], e_changes = []\<rparr>"
  have lab: "title (replace CHR ''-'' '' '' ''seo'') = ''Seo''"
    by code_simp
  have str: "str_int 95 = ''95''" by (simp add: str_int_def str_nat.simps)
  have 1: \<open>html_row [] [] (''seo'', 95) =
      ''\<newline>                <tr>\<newline>                    <td>Seo</td>\<newline>'' @
      ''                    <td><span class="score-badge score-good">95</span></td>\<newline>'' @
      ''                    <td>N/A</td>\<newline>'' @
      ''                    <td><span class="no-change">First run</span></td>\<newline>'' @
      ''                </tr>\<newline>            ''\<close>
    by (simp add: html_row_eq lab str badge_class_def show_prev_def change_html_def)
  have "sublist (html_row (e_previous r0) [] (''seo'', 95)) (html_result [] r0)"
    by (rule html_row_in_result) (simp add: r0_def)
  moreover have "sublist (html_result [] r0) (format_email_html [r0] ''2026-11-03T09:00:00'')"
    by (rule html_result_in_report) simp
  ultimately have "sublist (html_row (e_previous r0) [] (''seo'', 95))
      (format_email_html [r0] ''2026-11-03T09:00:00'')"
    by (rule sublist_trans)
  then have 2: "sublist (html_row [] [] (''seo'', 95)) (format_email_html [r0] ''2026-11-03T09:00:00'')"
    by (simp add: r0_def)
  have 3: "badge_class 95 = ''score-good''" by (simp add: badge_class_def)
  have 4: "spec_tier 95 = ''good''" by (simp add: spec_tier_def)
  have len: "py_len ''Seo'' = 3" "py_len ''95'' = 2" "py_len ''https://a.example'' = 17"
    by (simp_all add: py_len_def)
  have lj: "ljust 20 ''Seo'' = ''Seo                 ''"
    by (simp add: ljust_def len numeral_eq_Suc)
  have rj: "rjust 3 ''95'' = '' 95''"
    by (simp add: rjust_def len numeral_eq_Suc)
  have r50: "replicate 50 CHR ''='' = ''==================================================''"
    by (simp add: numeral_eq_Suc)
  have r17: "replicate 17 CHR ''-'' = ''-----------------''"
    by (simp add: numeral_eq_Suc)
  have 5: "format_email_text [r0] ''2026-11-03T09:00:00''
       = ''LIGHTHOUSE REPORT\<newline>==================================================\<newline>'' @
         ''Run Date: 2026-11-03T09:00:00\<newline>\<newline>\<newline>'' @
         ''https://a.example\<newline>-----------------\<newline>\<newline>'' @
         ''  Seo                   95 (was N/A) First run\<newline>\<newline>''"
    by (simp add: r0_def format_email_text_def text_result_def text_row_def Let_def str lab lj rj r50
        len r17 show_prev_def change_text_def)
  have 6: "\<not> sublist ''good'' (format_email_text [r0] ''2026-11-03T09:00:00'')"
    unfolding 5 by (simp add: sublist_Cons_right)
  show ?thesis
    unfolding r0_def [symmetric]
    by (rule conjI [OF 1 conjI [OF 2 conjI [OF 3 conjI [OF 4 conjI [OF 5 6]]]]])
qed


text \<open>
  Claim C9, amended. For every batch and run date the two reports are rendered from the
  same entries in the same order: each is its header with the run date, then one section
  per entry; a section shows the URL of the entry, the changes banner exactly when the
  change list of the entry is not empty, and one row per category, in order; the two
  rows of a category show the same label, the same current score, the same previous
  score or \<open>N/A\<close>, and the same change indicator. The structured row carries, in
  addition, the tier of the score as its badge class (at least 90 good, at least 50 ok,
  otherwise bad). The plain report shows no tier: a word with the letter \<open>o\<close> and without
  space or line break, as every tier name and every badge class is, occurs in it only
  inside the run date, a URL or a category label.
\<close>

theorem report_parity:
  \<open>format_email_html results run_date
     = html_head run_date @ concat (map (html_result []) results) @ html_tail
   \<and> format_email_text results run_date
     = ''LIGHTHOUSE REPORT\<newline>'' @ replicate 50 CHR ''='' @ ''\<newline>Run Date: '' @ run_date @
       ''\<newline>\<newline>'' @ concat (map (text_result []) results)
   \<and> html_result [] r
     = ''<div class="url-section"><h2>'' @ e_url r @ ''</h2>'' @
       (if e_changes r \<noteq> []
        then ''<div class="alert">'' @ sym_warning @ '' Score changes detected!</div>'' else []) @
       html_table_head @
       concat (map (html_row (e_previous r) []) (e_scores r)) @
       ''</table></div>''
   \<and> text_result [] r
     = ''\<newline>'' @ e_url r @ ''\<newline>'' @ replicate (py_len (e_url r)) CHR ''-'' @ ''\<newline>\<newline>'' @
       (if e_changes r \<noteq> []
        then sym_warning @ ''  SCORE CHANGES DETECTED!\<newline>\<newline>'' else []) @
       concat (map (text_row (e_previous r) []) (e_scores r)) @
       ''\<newline>''
   \<and> html_row previous [] (category, score)
     = ''\<newline>                <tr>\<newline>                    <td>'' @
       title (replace CHR ''-'' '' '' category) @
       ''</td>\<newline>                    <td><span class="score-badge '' @
       badge_class score @ ''">'' @ str_int score @
       ''</span></td>\<newline>                    <td>'' @
       show_prev (map_of previous category) @
       ''</td>\<newline>                    <td>'' @
       (''<span class="'' @
        (case map_of previous category of
           Some p \<Rightarrow> if score - p > 0 then ''improved''
                     else if score - p < 0 then ''declined'' else ''no-change''
         | None \<Rightarrow> ''no-change'') @
        ''">'' @ change_text score (map_of previous category) @ ''</span>'') @
       ''</td>\<newline>                </tr>\<newline>            ''
   \<and> text_row previous [] (category, score)
     = ''  '' @ ljust 20 (title (replace CHR ''-'' '' '' category)) @ '' '' @
       rjust 3 (str_int score) @ '' (was '' @ show_prev (map_of previous category) @ '') '' @
       change_text score (map_of previous category) @ ''\<newline>''
   \<and> badge_class score = ''score-'' @ (if spec_tier score = ''poor'' then ''bad'' else spec_tier score)
   \<and> (\<forall>w. CHR ''o'' \<in> set w \<and> CHR '' '' \<notin> set w \<and> CHR ''\<newline>'' \<notin> set w
            \<and> sublist w (format_email_text results run_date)
          \<longrightarrow> sublist w run_date
              \<or> (\<exists>r \<in> set results. sublist w (e_url r)
                    \<or> (\<exists>item \<in> set (e_scores r).
                          sublist w (title (replace CHR ''-'' '' '' (fst item))))))\<close>
proof -
  note 1 = format_email_html_eq [of results run_date]
  have 2: "format_email_text results run_date
     = ''LIGHTHOUSE REPORT\<newline>'' @ replicate 50 CHR ''='' @ ''\<newline>Run Date: '' @ run_date @
       ''\<newline>\<newline>'' @ concat (map (text_result []) results)"
    unfolding format_email_text_eq by (simp only: append_assoc)
  note 3 = html_result_eq [of "[]" r, unfolded append_Nil]
  note 4 = text_result_eq [of "[]" r, unfolded append_Nil]
  note 5 = html_row_eq [of previous category score, unfolded change_html_text]
  note 6 = text_row_eq [of previous category score]
  have 7: "badge_class score = ''score-'' @ (if spec_tier score = ''poor'' then ''bad'' else spec_tier score)"
    by (simp add: badge_class_def spec_tier_def)
  have 8: "\<forall>w. CHR ''o'' \<in> set w \<and> CHR '' '' \<notin> set w \<and> CHR ''\<newline>'' \<notin> set w
            \<and> sublist w (format_email_text results run_date)
          \<longrightarrow> sublist w run_date
              \<or> (\<exists>r \<in> set results. sublist w (e_url r)
                    \<or> (\<exists>item \<in> set (e_scores r).
                          sublist w (title (replace CHR ''-'' '' '' (fst item)))))"
    using text_report_no_tier [of _ results run_date] by blast
  show ?thesis
    by (rule conjI [OF 1 conjI [OF 2 conjI [OF 3 conjI [OF 4 conjI [OF 5 conjI [OF 6 conjI [OF 7 8]]]]]]])
qed


theorem report_parity_witness:
  "CHR ''o'' \<in> set ''good'' \<and> CHR '' '' \<notin> set ''good'' \<and> CHR ''\<newline>'' \<notin> set ''good''
   \<and> sublist ''good'' (format_email_text
        [\<lparr>e_url = ''https://good.example'', e_scores = [(''seo'', 95)],
          e_previous = [(''seo'', 90)],
          e_changes = [\<lparr>c_category = ''seo'', c_previous = 90, c_current = 95, c_diff = 5,
                         c_direction = ''improved''\<rparr>]\<rparr>] ''2026-11-03T09:00:00'')
   \<and> (sublist ''good'' ''2026-11-03T09:00:00''
       \<or> (\<exists>r \<in> set [\<lparr>e_url = ''https://good.example'', e_scores = [(''seo'', 95)],
          e_previous = [(''seo'', 90)],
          e_changes = [\<lparr>c_category = ''seo'', c_previous = 90, c_current = 95, c_diff = 5,
                         c_direction = ''improved''\<rparr>]\<rparr>].
             sublist ''good'' (e_url r)
             \<or> (\<exists>item \<in> set (e_scores r). sublist ''good'' (title (replace CHR ''-'' '' '' (fst item))))))
   \<and> \<not> sublist ''score-good'' (format_email_text
        [\<lparr>e_url = ''https://good.example'', e_scores = [(''seo'', 95)],
          e_previous = [(''seo'', 90)],
          e_changes = [\<lparr>c_category = ''seo'', c_previous = 90, c_current = 95, c_diff = 5,
                         c_direction = ''improved''\<rparr>]\<rparr>] ''2026-11-03T09:00:00'')"
proof -
  define r3 where "r3 = \<lparr>e_url = ''https://good.example'', e_scores = [(''seo'', 95)],
          e_previous = [(''seo'', 90)],
          e_changes = [\<lparr>c_category = ''seo'', c_previous = 90, c_current = 95, c_diff = 5,
                         c_direction = ''improved''\<rparr>]\<rparr>"
  note inst = report_parity [where results = "[r3]" and run_date = "''2026-11-03T09:00:00''",
      THEN conjunct2, THEN conjunct2, THEN conjunct2, THEN conjunct2, THEN conjunct2,
      THEN conjunct2, THEN conjunct2, rule_format]
  have o: "CHR ''o'' \<in> set ''good''" by simp
  have sp: "CHR '' '' \<notin> set ''good''" by simp
  have nl: "CHR ''\<newline>'' \<notin> set ''good''" by simp
  have "sublist ''good'' (e_url r3)" by (simp add: r3_def sublist_Cons_right)
  then have "sublist ''good'' (text_result [] r3)"
    using text_result_url by (rule sublist_trans)
  moreover have "sublist (text_result [] r3) (format_email_text [r3] ''2026-11-03T09:00:00'')"
    by (rule text_result_in_report) simp
  ultimately have s: "sublist ''good'' (format_email_text [r3] ''2026-11-03T09:00:00'')"
    by (rule sublist_trans)
  have c: "sublist ''good'' ''2026-11-03T09:00:00''
       \<or> (\<exists>r \<in> set [r3]. sublist ''good'' (e_url r)
             \<or> (\<exists>item \<in> set (e_scores r). sublist ''good'' (title (replace CHR ''-'' '' '' (fst item)))))"
    by (rule inst) (intro conjI o sp nl s)
  have lab: "title (replace CHR ''-'' '' '' ''seo'') = ''Seo''"
    by code_simp
  have n: "\<not> sublist ''score-good'' (format_email_text [r3] ''2026-11-03T09:00:00'')"
  proof
    assume a: "sublist ''score-good'' (format_email_text [r3] ''2026-11-03T09:00:00'')"
    have "sublist ''score-good'' ''2026-11-03T09:00:00''
       \<or> (\<exists>r \<in> set [r3]. sublist ''score-good'' (e_url r)
             \<or> (\<exists>item \<in> set (e_scores r).
                   sublist ''score-good'' (title (replace CHR ''-'' '' '' (fst item)))))"
      by (rule inst) (simp add: a)
    then show False
      by (simp add: r3_def lab sublist_Cons_right)
  qed
  show ?thesis
    unfolding r3_def [symmetric]
    by (rule conjI [OF o conjI [OF sp conjI [OF nl conjI [OF s conjI [OF c n]]]]])
qed

end
